theory Spec2Isabelle
  imports Main "HOL-Library.Word"
begin

section \<open>Bytes and the object representation of integers\<close>

text \<open>
  The server (\<^verbatim>\<open>cp2/server.c\<close>) marshals with \<^verbatim>\<open>memcpy\<close> of the objects themselves, so
  the wire carries the object representation of the platform. The embedding fixes the
  LP64 little-endian ABI the project is built for: \<^verbatim>\<open>int\<close> and \<^verbatim>\<open>mode_t\<close> are 4 bytes,
  \<^verbatim>\<open>size_t\<close>, \<^verbatim>\<open>ssize_t\<close> and \<^verbatim>\<open>off_t\<close> are 8 bytes.
\<close>

type_synonym byte = "8 word"

fun le_bytes :: "nat \<Rightarrow> nat \<Rightarrow> byte list" where
  "le_bytes 0 v = []"
| "le_bytes (Suc n) v = of_nat (v mod 256) # le_bytes n (v div 256)"

fun le_val :: "byte list \<Rightarrow> nat" where
  "le_val [] = 0"
| "le_val (b # bs) = unat b + 256 * le_val bs"

definition bytes32 :: "32 word \<Rightarrow> byte list" where
  "bytes32 x = le_bytes 4 (unat x)"

definition bytes64 :: "64 word \<Rightarrow> byte list" where
  "bytes64 x = le_bytes 8 (unat x)"

section \<open>Failures, memory blocks and the environment\<close>

text \<open>
  \<^verbatim>\<open>err(1,0)\<close> ends the process with status 1: \<open>Exit 1\<close>. \<open>Fault\<close> stands for the two
  ways a run leaves what the C language defines: undefined behaviour (a read or a copy
  that leaves its block, an array of negative size, a null pointer that is written
  through) and the end of the process by a signal (an automatic array that the stack
  cannot hold). After undefined behaviour a given build may go on running, abort in the
  allocator or send bytes; the model follows the run no further and gives no state.
\<close>

datatype failure = Exit int | Fault

text \<open>\<^verbatim>\<open>*(int*)(buf+off)\<close> and \<^verbatim>\<open>*(size_t*)(buf+off)\<close>: a read past the end of the block
  is a \<open>Fault\<close>.\<close>

definition load32 :: "byte list \<Rightarrow> nat \<Rightarrow> failure + 32 word" where
  "load32 buf off =
     (if off + 4 \<le> length buf then Inr (of_nat (le_val (take 4 (drop off buf)))) else Inl Fault)"

definition load64 :: "byte list \<Rightarrow> nat \<Rightarrow> failure + 64 word" where
  "load64 buf off =
     (if off + 8 \<le> length buf then Inr (of_nat (le_val (take 8 (drop off buf)))) else Inl Fault)"

text \<open>A block of memory is the list of its bytes; its length is the allocated size.
  \<^verbatim>\<open>memcpy(dst+off, src, n)\<close> must stay inside both blocks.\<close>

definition memcpy :: "byte list \<Rightarrow> nat \<Rightarrow> byte list \<Rightarrow> nat \<Rightarrow> failure + byte list" where
  "memcpy dst off src n =
     (if off + n \<le> length dst \<and> n \<le> length src
      then Inr (take off dst @ take n src @ drop (off + n) dst)
      else Inl Fault)"

text \<open>\<^verbatim>\<open>p[i] = c\<close>.\<close>

definition store_byte :: "byte list \<Rightarrow> nat \<Rightarrow> byte \<Rightarrow> failure + byte list" where
  "store_byte dst i c = (if i < length dst then Inr (dst[i := c]) else Inl Fault)"

text \<open>Sequencing of fallible steps.\<close>

definition and_then :: "failure + 'a \<Rightarrow> ('a \<Rightarrow> failure + 'b) \<Rightarrow> failure + 'b" where
  "and_then m f = (case m of Inl e \<Rightarrow> Inl e | Inr x \<Rightarrow> f x)"

text \<open>A C string held in a block: the bytes before the first NUL.\<close>

definition c_string :: "byte list \<Rightarrow> byte list" where
  "c_string p = takeWhile (\<lambda>b. b \<noteq> 0) p"

text \<open>
  \<^verbatim>\<open>struct dirtreenode\<close> is declared in \<^verbatim>\<open>../include/dirtree.h\<close>: a name (a C string, here
  its bytes without the terminator), \<^verbatim>\<open>num_subdirs\<close> and the array \<^verbatim>\<open>subdirs\<close> of that
  many children. The array and its count are one list here: \<^verbatim>\<open>num_subdirs\<close> is its length.
\<close>

datatype dirtreenode = Node (name: "byte list") (subdirs: "dirtreenode list")

definition num_subdirs :: "dirtreenode \<Rightarrow> nat" where
  "num_subdirs t = length (subdirs t)"

text \<open>
  The environment of the server process: the C library and the operating system, as
  transitions of an abstract world \<open>'w\<close>. \<open>os_errno\<close> reads the global \<^verbatim>\<open>errno\<close>.
  \<open>os_malloc n\<close> says whether the allocation of \<open>n\<close> bytes succeeds; like every library
  call it may change the world, \<^verbatim>\<open>errno\<close> included. The file-system calls return their
  result and, where they fill a buffer, the bytes they stored. \<open>os_uninit w i\<close> is the
  byte found at offset \<open>i\<close> of an automatic array that has not been written yet: what
  the stack happens to hold.
\<close>

record 'w os =
  os_errno :: "'w \<Rightarrow> 32 word"
  os_malloc :: "nat \<Rightarrow> 'w \<Rightarrow> bool \<times> 'w"
  os_free :: "'w \<Rightarrow> 'w"
  os_open :: "byte list \<Rightarrow> 32 word \<Rightarrow> 32 word \<Rightarrow> 'w \<Rightarrow> 32 word \<times> 'w"
  os_close :: "32 word \<Rightarrow> 'w \<Rightarrow> 32 word \<times> 'w"
  os_write :: "32 word \<Rightarrow> byte list \<Rightarrow> 64 word \<Rightarrow> 'w \<Rightarrow> 64 word \<times> 'w"
  os_read :: "32 word \<Rightarrow> 64 word \<Rightarrow> 'w \<Rightarrow> (64 word \<times> byte list) \<times> 'w"
  os_lseek :: "32 word \<Rightarrow> 64 word \<Rightarrow> 32 word \<Rightarrow> 'w \<Rightarrow> 64 word \<times> 'w"
  os_stat :: "byte list \<Rightarrow> 'w \<Rightarrow> (32 word \<times> byte list) \<times> 'w"
  os_unlink :: "byte list \<Rightarrow> 'w \<Rightarrow> 32 word \<times> 'w"
  os_getdirentries :: "32 word \<Rightarrow> 64 word \<Rightarrow> 64 word \<Rightarrow> 'w \<Rightarrow> (64 word \<times> byte list) \<times> 'w"
  os_getdirtree :: "byte list \<Rightarrow> 'w \<Rightarrow> dirtreenode option \<times> 'w"
  os_freedirtree :: "dirtreenode \<Rightarrow> 'w \<Rightarrow> 'w"
  os_uninit :: "'w \<Rightarrow> nat \<Rightarrow> byte"

text \<open>\<^verbatim>\<open>p = malloc(n); if (p == NULL) err(1,0);\<close> A fresh block is modelled zero-filled.\<close>

definition malloc_or_err :: "'w os \<Rightarrow> nat \<Rightarrow> 'w \<Rightarrow> failure + (byte list \<times> 'w)" where
  "malloc_or_err os n w =
     (case os_malloc os n w of
        (True, w') \<Rightarrow> Inr (replicate n 0, w')
      | (False, w') \<Rightarrow> Inl (Exit 1))"

section \<open>Tree serialization\<close>

definition MAXMSGLEN :: nat where
  "MAXMSGLEN = 200"

text \<open>\<^verbatim>\<open>struct info\<close>: the serialized buffer and its size. \<open>len\<close> is a C \<^verbatim>\<open>int\<close>; a value
  that does not fit is a signed overflow, \<open>Fault\<close> (see \<open>to_int\<close>).\<close>

record ret =
  tmp :: "byte list"
  len :: nat

definition sizeof_ret :: nat where
  "sizeof_ret = 16"

definition to_int :: "nat \<Rightarrow> failure + nat" where
  "to_int n = (if n < 2 ^ 31 then Inr n else Inl Fault)"

definition serializaTreeNode :: "'w os \<Rightarrow> dirtreenode \<Rightarrow> 'w \<Rightarrow> failure + (ret \<times> 'w)" where
  "serializaTreeNode os t w =
     and_then (to_int (length (name t))) (\<lambda>n.
     and_then (malloc_or_err os (n + 4 * 2) w) (\<lambda>(buf, w1).
     and_then (memcpy buf 0 (bytes32 (of_nat n)) 4) (\<lambda>buf.
     and_then (memcpy buf 4 (bytes32 (of_nat (num_subdirs t))) 4) (\<lambda>buf.
     and_then (memcpy buf (4 + 4) (name t) n) (\<lambda>buf.
     and_then (malloc_or_err os sizeof_ret w1) (\<lambda>(base, w2).
     and_then (to_int (n + 4 * 2)) (\<lambda>l.
     Inr (\<lparr>tmp = buf, len = l\<rparr>, w2))))))))"

text \<open>
  \<open>serializeTree\<close> with its \<^verbatim>\<open>for\<close> loop over the children as \<open>serializeSubdirs\<close>, which
  carries the loop's variables \<^verbatim>\<open>size\<close> (here \<open>sz\<close>; never updated by the source), \<^verbatim>\<open>buf\<close> and
  \<^verbatim>\<open>offset\<close>.
\<close>

fun serializeTree :: "'w os \<Rightarrow> dirtreenode \<Rightarrow> 'w \<Rightarrow> failure + (ret \<times> 'w)"
  and serializeSubdirs ::
    "'w os \<Rightarrow> dirtreenode list \<Rightarrow> nat \<Rightarrow> byte list \<Rightarrow> nat \<Rightarrow> 'w \<Rightarrow> failure + ((byte list \<times> nat) \<times> 'w)"
where
  "serializeTree os (Node nm ts) w =
     (if length ts = 0 then serializaTreeNode os (Node nm ts) w
      else
        and_then (malloc_or_err os MAXMSGLEN w) (\<lambda>(buf, w1).
        and_then (serializaTreeNode os (Node nm ts) w1) (\<lambda>(root, w2).
        and_then (memcpy buf 0 (tmp root) (len root)) (\<lambda>buf.
        and_then (serializeSubdirs os ts MAXMSGLEN buf (len root) (os_free os (os_free os w2)))
          (\<lambda>((buf, offset), w3).
        and_then (malloc_or_err os sizeof_ret w3) (\<lambda>(rval, w4).
        Inr (\<lparr>tmp = buf, len = offset\<rparr>, w4)))))))"
| "serializeSubdirs os [] sz buf offset w = Inr ((buf, offset), w)"
| "serializeSubdirs os (t # ts) sz buf offset w =
     (case serializeTree os t w of
        Inl e \<Rightarrow> Inl e
      | Inr (tmp', w1) \<Rightarrow>
          (case to_int (offset + len tmp') of
             Inl e \<Rightarrow> Inl e
           | Inr offset' \<Rightarrow>
               (case
                  (if offset' > sz then
                     and_then (malloc_or_err os
                        (if offset' > 2 * sz then offset' + sz else sz * 2) w1)
                       (\<lambda>(resize, w2).
                     and_then (memcpy resize 0 buf offset) (\<lambda>resize.
                     and_then (memcpy resize offset (tmp tmp') (len tmp')) (\<lambda>resize.
                     Inr (resize, os_free os w2))))
                   else
                     and_then (memcpy buf offset (tmp tmp') (len tmp')) (\<lambda>buf.
                     Inr (buf, w1)))
                of
                  Inl e \<Rightarrow> Inl e
                | Inr (buf', w3) \<Rightarrow>
                    serializeSubdirs os ts sz buf' offset' (os_free os (os_free os w3)))))"

text \<open>What the specification asks for: the preorder byte sequence and its length.\<close>

fun preorder :: "dirtreenode \<Rightarrow> byte list" where
  "preorder (Node nm ts) =
     bytes32 (of_nat (length nm)) @ bytes32 (of_nat (length ts)) @ nm @ concat (map preorder ts)"

fun tree_size :: "dirtreenode \<Rightarrow> nat" where
  "tree_size (Node nm ts) = 8 + length nm + sum_list (map tree_size ts)"


section \<open>The session and the nine handlers\<close>

text \<open>
  What the peer delivers on the session socket: fragments of bytes, or a transport
  error. An exhausted list is a peer that has closed the connection.
\<close>

datatype event = Data "byte list" | Err

text \<open>
  The state of one session process. \<open>outbox\<close> lists the buffers handed to \<^verbatim>\<open>send\<close>,
  oldest first; \<open>errlog\<close> is what was printed on \<^verbatim>\<open>stderr\<close>; \<open>sess_open\<close> says whether
  the session socket is still open; \<open>stack\<close> is the number of bytes the stack of the
  process can still give to variable-length arrays (the frames of the functions, of a
  fixed size, are not counted). \<open>fs_errno\<close> is an observation added to the model and read
  by no function: the value of \<^verbatim>\<open>errno\<close> at the instant the last file-system call
  returned.
\<close>

record 'w state =
  world :: 'w
  inbox :: "event list"
  outbox :: "byte list list"
  errlog :: "string list"
  sess_open :: bool
  stack :: nat
  fs_errno :: "32 word"

text \<open>\<^verbatim>\<open>send(sessfd, buf, n, 0)\<close>; the handlers ignore its result.\<close>

definition send :: "byte list \<Rightarrow> nat \<Rightarrow> 'w state \<Rightarrow> failure + 'w state" where
  "send buf n s =
     (if n \<le> length buf then Inr (s\<lparr>outbox := outbox s @ [take n buf]\<rparr>) else Inl Fault)"

text \<open>A variable-length array \<^verbatim>\<open>char a[k]\<close>, which the compiler takes from the stack. A
  negative size is undefined behaviour, and an array larger than what is left of the
  stack ends the process with a signal at its first use; a zero-sized array is accepted,
  as gcc does. The array is given back when its function returns (\<open>unwind\<close>). Its bytes
  are modelled as zero, like those of a fresh block: apart from \<^verbatim>\<open>op\<close> in \<open>serve\<close>, which
  has its own model, the bytes that the functions read from an array or a block have
  been stored before, by the function or by the call it handed the array to.\<close>

definition vla :: "int \<Rightarrow> 'w state \<Rightarrow> failure + (byte list \<times> 'w state)" where
  "vla k s =
     (if k < 0 \<or> int (stack s) < k then Inl Fault
      else Inr (replicate (nat k) 0, s\<lparr>stack := stack s - nat k\<rparr>))"

definition unwind :: "'w state \<Rightarrow> 'w state \<Rightarrow> 'w state" where
  "unwind entry s = s\<lparr>stack := stack entry\<rparr>"

text \<open>\<^verbatim>\<open>p[i] = c\<close> with an \<^verbatim>\<open>int\<close> index.\<close>

definition store_at :: "byte list \<Rightarrow> int \<Rightarrow> byte \<Rightarrow> failure + byte list" where
  "store_at dst i c = (if i < 0 then Inl Fault else store_byte dst (nat i) c)"

definition sizeof_stat :: nat where
  "sizeof_stat = 144"

definition serveOpen :: "'w os \<Rightarrow> byte list \<Rightarrow> 'w state \<Rightarrow> failure + 'w state" where
  "serveOpen os buf s =
     and_then (load32 buf 0) (\<lambda>flag.
     and_then (load32 buf 4) (\<lambda>m.
     and_then (load64 buf (4 + 4)) (\<lambda>pathLen.
     and_then (malloc_or_err os (unat (pathLen + 1)) (world s)) (\<lambda>(path, w1).
     and_then (memcpy path 0 (drop (4 + 4 + 8) buf) (unat pathLen)) (\<lambda>path.
     and_then (store_byte path (unat pathLen) 0) (\<lambda>path.
     (case os_open os (c_string path) flag m w1 of (res, w2) \<Rightarrow>
     and_then (malloc_or_err os (4 * 3) (os_free os w2)) (\<lambda>(retval, w3).
     and_then (memcpy retval 0 (bytes32 (4 * 2)) 4) (\<lambda>retval.
     and_then (memcpy retval 4 (bytes32 res) 4) (\<lambda>retval.
     and_then (memcpy retval (4 * 2) (bytes32 (os_errno os w3)) 4) (\<lambda>retval.
     and_then (send retval (3 * 4) s) (\<lambda>s.
     Inr (s\<lparr>world := os_free os w3, fs_errno := os_errno os w2\<rparr>)))))))))))))"

definition serveClose :: "'w os \<Rightarrow> byte list \<Rightarrow> 'w state \<Rightarrow> failure + 'w state" where
  "serveClose os buf s =
     and_then (load32 buf 0) (\<lambda>fd.
     (case os_close os fd (world s) of (res, w1) \<Rightarrow>
     and_then (malloc_or_err os (4 * 3) w1) (\<lambda>(retval, w2).
     and_then (memcpy retval 0 (bytes32 (4 * 2)) 4) (\<lambda>retval.
     and_then (memcpy retval 4 (bytes32 res) 4) (\<lambda>retval.
     and_then (memcpy retval (4 * 2) (bytes32 (os_errno os w2)) 4) (\<lambda>retval.
     and_then (send retval (3 * 4) s) (\<lambda>s.
     Inr (s\<lparr>world := os_free os w2, fs_errno := os_errno os w1\<rparr>))))))))"

text \<open>\<open>serveWrite\<close> does not test the result of \<^verbatim>\<open>malloc(nbyte)\<close>: a null pointer goes
  straight to \<^verbatim>\<open>memcpy\<close>.\<close>

definition serveWrite :: "'w os \<Rightarrow> byte list \<Rightarrow> 'w state \<Rightarrow> failure + 'w state" where
  "serveWrite os buf s =
     and_then (load32 buf 0) (\<lambda>fildes.
     and_then (load64 buf 4) (\<lambda>nbyte.
     (case os_malloc os (unat nbyte) (world s) of (got, w1) \<Rightarrow>
     and_then (if got then Inr (replicate (unat nbyte) 0) else Inl Fault) (\<lambda>buff.
     and_then (memcpy buff 0 (drop (4 + 8) buf) (unat nbyte)) (\<lambda>buff.
     (case os_write os fildes buff nbyte w1 of (res, w2) \<Rightarrow>
     and_then (malloc_or_err os (4 * 2 + 8) (os_free os w2)) (\<lambda>(retval, w3).
     and_then (memcpy retval 0 (bytes32 (4 + 8)) 4) (\<lambda>retval.
     and_then (memcpy retval 4 (bytes64 res) 8) (\<lambda>retval.
     and_then (memcpy retval (4 + 8) (bytes32 (os_errno os w3)) 4) (\<lambda>retval.
     and_then (send retval (8 + 4 * 2) s) (\<lambda>s.
     Inr (s\<lparr>world := os_free os w3, fs_errno := os_errno os w2\<rparr>))))))))))))"

text \<open>\<^verbatim>\<open>read\<close> returns \<open>res\<close> and has stored \<open>data\<close> at the start of \<^verbatim>\<open>buff\<close>.\<close>

definition serveRead :: "'w os \<Rightarrow> byte list \<Rightarrow> 'w state \<Rightarrow> failure + 'w state" where
  "serveRead os buf s =
     and_then (load32 buf 0) (\<lambda>fildes.
     and_then (load64 buf 4) (\<lambda>nbyte.
     and_then (malloc_or_err os (unat nbyte) (world s)) (\<lambda>(buff, w1).
     (case os_read os fildes nbyte w1 of ((res, data), w2) \<Rightarrow>
     and_then (memcpy buff 0 data (length data)) (\<lambda>buff.
     (if res \<noteq> - 1 then
        and_then (malloc_or_err os (unat (res + 8 + 4 * 2)) w2) (\<lambda>(retval, w3).
        and_then (memcpy retval 0 (bytes32 (ucast (res + 8 + 4))) 4) (\<lambda>retval.
        and_then (memcpy retval 4 (bytes64 res) 8) (\<lambda>retval.
        and_then (memcpy retval (8 + 4) (bytes32 (os_errno os w3)) 4) (\<lambda>retval.
        and_then (memcpy retval (4 * 2 + 8) buff (unat res)) (\<lambda>retval.
        and_then (send retval (unat (8 + 4 * 2 + res)) s) (\<lambda>s.
        Inr (s\<lparr>world := os_free os (os_free os w3), fs_errno := os_errno os w2\<rparr>)))))))
      else
        and_then (malloc_or_err os (8 + 2 * 4) w2) (\<lambda>(retval, w3).
        and_then (memcpy retval 0 (bytes32 (8 + 4)) 4) (\<lambda>retval.
        and_then (memcpy retval 4 (bytes64 res) 8) (\<lambda>retval.
        and_then (memcpy retval (8 + 4) (bytes32 (os_errno os w3)) 4) (\<lambda>retval.
        and_then (send retval (8 + 2 * 4) s) (\<lambda>s.
        Inr (s\<lparr>world := os_free os (os_free os w3), fs_errno := os_errno os w2\<rparr>))))))))))))"

definition serveLseek :: "'w os \<Rightarrow> byte list \<Rightarrow> 'w state \<Rightarrow> failure + 'w state" where
  "serveLseek os buf s =
     and_then (load32 buf 0) (\<lambda>fildes.
     and_then (load64 buf 4) (\<lambda>offset.
     and_then (load32 buf (4 + 8)) (\<lambda>pos.
     (case os_lseek os fildes offset pos (world s) of (res, w1) \<Rightarrow>
     and_then (malloc_or_err os (8 + 4 * 2) w1) (\<lambda>(retval, w2).
     and_then (memcpy retval 0 (bytes32 (8 + 4)) 4) (\<lambda>retval.
     and_then (memcpy retval 4 (bytes64 res) 8) (\<lambda>retval.
     and_then (memcpy retval (8 + 4) (bytes32 (os_errno os w2)) 4) (\<lambda>retval.
     and_then (send retval (8 + 4 * 2) s) (\<lambda>s.
     Inr (s\<lparr>world := os_free os w2, fs_errno := os_errno os w1\<rparr>))))))))))"

text \<open>In \<open>serveStat\<close>, \<open>serveUnlink\<close> and \<open>serveGetdirtree\<close> the path length is an
  \<^verbatim>\<open>int\<close>: it is sign-extended where a \<^verbatim>\<open>size_t\<close> is expected. \<^verbatim>\<open>stat\<close> returns \<open>res\<close> and
  leaves \<open>sb\<close> as the bytes of \<^verbatim>\<open>struct stat s\<close>.\<close>

definition serveStat :: "'w os \<Rightarrow> byte list \<Rightarrow> 'w state \<Rightarrow> failure + 'w state" where
  "serveStat os buf s =
     and_then (load32 buf 0) (\<lambda>pathLen.
     and_then (malloc_or_err os (unat (scast (pathLen + 1) :: 64 word)) (world s)) (\<lambda>(path, w1).
     and_then (memcpy path 0 (drop 4 buf) (unat (scast pathLen :: 64 word))) (\<lambda>path.
     and_then (store_at path (sint pathLen) 0) (\<lambda>path.
     (case os_stat os (c_string path) w1 of ((res, sb), w2) \<Rightarrow>
     and_then (malloc_or_err os (4 * 3 + sizeof_stat) w2) (\<lambda>(retval, w3).
     and_then (memcpy retval 0 (bytes32 (of_nat (4 * 2 + sizeof_stat))) 4) (\<lambda>retval.
     and_then (memcpy retval 4 (bytes32 res) 4) (\<lambda>retval.
     and_then (memcpy retval (4 * 2) (bytes32 (os_errno os w3)) 4) (\<lambda>retval.
     and_then (memcpy retval (4 * 3) sb sizeof_stat) (\<lambda>retval.
     and_then (send retval (4 * 3 + sizeof_stat) s) (\<lambda>s.
     Inr (s\<lparr>world := os_free os (os_free os w3), fs_errno := os_errno os w2\<rparr>))))))))))))"

definition serveUnlink :: "'w os \<Rightarrow> byte list \<Rightarrow> 'w state \<Rightarrow> failure + 'w state" where
  "serveUnlink os buf s =
     and_then (load32 buf 0) (\<lambda>pathLen.
     and_then (malloc_or_err os (unat (scast (pathLen + 1) :: 64 word)) (world s)) (\<lambda>(path, w1).
     and_then (memcpy path 0 (drop 4 buf) (unat (scast pathLen :: 64 word))) (\<lambda>path.
     and_then (store_at path (sint pathLen) 0) (\<lambda>path.
     (case os_unlink os (c_string path) w1 of (res, w2) \<Rightarrow>
     and_then (malloc_or_err os (4 * 3) w2) (\<lambda>(retval, w3).
     and_then (memcpy retval 0 (bytes32 (4 * 2)) 4) (\<lambda>retval.
     and_then (memcpy retval 4 (bytes32 res) 4) (\<lambda>retval.
     and_then (memcpy retval (4 * 2) (bytes32 (os_errno os w3)) 4) (\<lambda>retval.
     and_then (send retval (4 * 3) s) (\<lambda>s.
     Inr (s\<lparr>world := os_free os (os_free os w3), fs_errno := os_errno os w2\<rparr>)))))))))))"

text \<open>\<open>serveGetdirentries\<close> has a single path for every result of \<^verbatim>\<open>getdirentries\<close>: the
  sizes are computed from \<open>res\<close> in \<^verbatim>\<open>size_t\<close> arithmetic, \<open>res = -1\<close> included. Its buffer
  \<^verbatim>\<open>buff\<close> is an array of \<open>nbyte\<close> bytes on the stack.\<close>

definition serveGetdirentries :: "'w os \<Rightarrow> byte list \<Rightarrow> 'w state \<Rightarrow> failure + 'w state" where
  "serveGetdirentries os buf s =
     and_then (load32 buf 0) (\<lambda>fd.
     and_then (load64 buf 4) (\<lambda>nbyte.
     and_then (load64 buf (4 + 8)) (\<lambda>basep.
     and_then (vla (uint nbyte) s) (\<lambda>(buff, s1).
     (case os_getdirentries os fd nbyte basep (world s) of ((res, data), w1) \<Rightarrow>
     and_then (memcpy buff 0 data (length data)) (\<lambda>buff.
     and_then (malloc_or_err os (unat (res + 4 * 2 + 8)) w1) (\<lambda>(retval, w2).
     and_then (memcpy retval 0 (bytes32 (ucast (res + 4 + 8))) 4) (\<lambda>retval.
     and_then (memcpy retval 4 (bytes64 res) 8) (\<lambda>retval.
     and_then (memcpy retval (8 + 4) (bytes32 (os_errno os w2)) 4) (\<lambda>retval.
     and_then (memcpy retval (4 * 2 + 8) buff (unat res)) (\<lambda>retval.
     and_then (send retval (unat (8 + 4 * 2 + res)) s1) (\<lambda>s2.
     Inr (unwind s (s2\<lparr>world := os_free os w2, fs_errno := os_errno os w1\<rparr>))))))))))))))"

text \<open>In \<open>serveGetdirtree\<close> the path and, for a tree, the whole reply are arrays on the
  stack; the reply of 12 bytes for \<^verbatim>\<open>NULL\<close> has a fixed size.\<close>

definition serveGetdirtree :: "'w os \<Rightarrow> byte list \<Rightarrow> 'w state \<Rightarrow> failure + 'w state" where
  "serveGetdirtree os buf s =
     and_then (load32 buf 0) (\<lambda>n.
     and_then (vla (sint (n + 1)) s) (\<lambda>(path, s1).
     and_then (memcpy path 0 (drop 4 buf) (unat (scast n :: 64 word))) (\<lambda>path.
     and_then (store_at path (sint n) 0) (\<lambda>path.
     (case os_getdirtree os (c_string path) (world s) of
        (None, w1) \<Rightarrow>
          and_then (memcpy (replicate (4 * 3) 0) 0 (bytes32 (4 * 2)) 4) (\<lambda>retval.
          and_then (memcpy retval 4 (bytes32 1) 4) (\<lambda>retval.
          and_then (memcpy retval (4 * 2) (bytes32 (os_errno os w1)) 4) (\<lambda>retval.
          and_then (send retval (4 * 3) s1) (\<lambda>s2.
          Inr (unwind s (s2\<lparr>world := w1, fs_errno := os_errno os w1\<rparr>))))))
      | (Some t, w1) \<Rightarrow>
          and_then (serializeTree os t w1) (\<lambda>(sr, w2).
          (let l = (of_nat (len sr) :: 64 word) in
          and_then (vla (uint (4 * 3 + 8 + l + 1)) s1) (\<lambda>(retval, s2).
          and_then (memcpy retval 0 (bytes32 (ucast (4 * 2 + 8 + l + 1))) 4) (\<lambda>retval.
          and_then (memcpy retval 4 (bytes32 0) 4) (\<lambda>retval.
          and_then (memcpy retval (4 * 2) (bytes64 l) 8) (\<lambda>retval.
          and_then (memcpy retval (8 + 4 * 2) (bytes32 (os_errno os w2)) 4) (\<lambda>retval.
          and_then (memcpy retval (4 * 3 + 8) (tmp sr) (unat l)) (\<lambda>retval.
          and_then (store_byte retval (4 * 3 + 8 + unat l) 0) (\<lambda>retval.
          and_then (send retval (unat (of_nat (len sr) + 4 * 3 + 8 + 1 :: 64 word)) s2) (\<lambda>s3.
          Inr (unwind s (s3\<lparr>world := os_free os (os_free os (os_freedirtree os t w2)),
                             fs_errno := os_errno os w1\<rparr>)))))))))))))))))"

text \<open>\<^verbatim>\<open>recv(sessfd, p, n, 0)\<close> on the session socket: the result, the bytes stored at \<open>p\<close>
  and what remains to be delivered. A closed peer gives 0, a transport error -1.\<close>

fun recv :: "nat \<Rightarrow> event list \<Rightarrow> (int \<times> byte list) \<times> event list" where
  "recv n [] = ((0, []), [])"
| "recv n (Err # evs) = ((- 1, []), evs)"
| "recv n (Data d # evs) =
     (if d = [] then recv n evs
      else if length d \<le> n then ((int (length d), d), evs)
      else ((int n, take n d), Data (drop n d) # evs))"

text \<open>The \<^verbatim>\<open>while\<close> loop of \<open>receiveAll\<close>. It need not terminate: a run that never
  returns is \<open>None\<close>.\<close>

partial_function (option) receiveAll_loop ::
  "int \<Rightarrow> byte list \<Rightarrow> int \<Rightarrow> int \<Rightarrow> event list \<Rightarrow> (failure + (byte list \<times> event list)) option"
where
  "receiveAll_loop bufSize buf maxSize currlen evs =
     (if currlen < bufSize then
        (case recv (nat maxSize) evs of
           ((rv, d), evs') \<Rightarrow>
             (case memcpy buf (nat currlen) d (length d) of
                Inl e \<Rightarrow> Some (Inl e)
              | Inr buf' \<Rightarrow>
                  if rv < 0 then Some (Inl (Exit 1))
                  else receiveAll_loop bufSize buf'
                         (if bufSize - (currlen + rv) < maxSize then bufSize - (currlen + rv)
                          else maxSize)
                         (currlen + rv) evs'))
      else Some (Inr (buf, evs)))"

definition receiveAll ::
  "byte list \<Rightarrow> int \<Rightarrow> event list \<Rightarrow> (failure + (byte list \<times> event list)) option" where
  "receiveAll buf bufSize evs =
     receiveAll_loop bufSize buf (if bufSize < int MAXMSGLEN then bufSize else int MAXMSGLEN) 0 evs"

text \<open>The \<^verbatim>\<open>if\<close>/\<^verbatim>\<open>else if\<close> chain of \<open>serve\<close> on \<^verbatim>\<open>*fID\<close>, with the value \<open>serve\<close> returns.\<close>

definition dispatch ::
  "'w os \<Rightarrow> 32 word \<Rightarrow> byte list \<Rightarrow> 'w state \<Rightarrow> failure + (int \<times> 'w state)" where
  "dispatch os fID buf s =
     (if fID = 0 then and_then (serveOpen os buf s) (\<lambda>s. Inr (0, s))
      else if fID = 1 then and_then (serveClose os buf s) (\<lambda>s. Inr (0, s))
      else if fID = 2 then and_then (serveWrite os buf s) (\<lambda>s. Inr (0, s))
      else if fID = 3 then and_then (serveRead os buf s) (\<lambda>s. Inr (0, s))
      else if fID = 4 then and_then (serveLseek os buf s) (\<lambda>s. Inr (0, s))
      else if fID = 5 then and_then (serveStat os buf s) (\<lambda>s. Inr (0, s))
      else if fID = 6 then and_then (serveUnlink os buf s) (\<lambda>s. Inr (0, s))
      else if fID = 7 then and_then (serveGetdirentries os buf s) (\<lambda>s. Inr (0, s))
      else if fID = 8 then and_then (serveGetdirtree os buf s) (\<lambda>s. Inr (0, s))
      else Inr (- 1, s\<lparr>errlog := errlog s @ [''undefined function \<newline>'']\<rparr>))"

text \<open>
  \<open>serve\<close>: one \<^verbatim>\<open>recv\<close> of at most 8 bytes into \<^verbatim>\<open>char op[8]\<close>, which is not initialized:
  the bytes that this \<^verbatim>\<open>recv\<close> did not store are whatever the stack held. Then the array
  \<^verbatim>\<open>buf\<close> of \<^verbatim>\<open>bufSize\<close> bytes on the stack, \<open>receiveAll\<close> and the dispatch; the array is
  given back when \<open>serve\<close> returns.
\<close>

definition serve :: "'w os \<Rightarrow> 'w state \<Rightarrow> (failure + (int \<times> 'w state)) option" where
  "serve os s =
     (case recv (4 * 2) (inbox s) of
        ((rv, d), evs) \<Rightarrow>
          (case memcpy (map (os_uninit os (world s)) [0..<4 * 2]) 0 d (length d) of
             Inl e \<Rightarrow> Some (Inl e)
           | Inr op \<Rightarrow>
               if rv \<le> 0 then
                 (if rv < 0 then Some (Inl (Exit 1)) else Some (Inr (- 1, s\<lparr>inbox := evs\<rparr>)))
               else
                 (case and_then (load32 op 0) (\<lambda>fID.
                       and_then (load32 op 4) (\<lambda>bufSize.
                       and_then (vla (sint bufSize) s) (\<lambda>(buf, s1).
                       Inr (fID, sint bufSize, buf, s1)))) of
                    Inl e \<Rightarrow> Some (Inl e)
                  | Inr (fID, bufSize, buf, s1) \<Rightarrow>
                      (case receiveAll buf bufSize evs of
                         None \<Rightarrow> None
                       | Some (Inl e) \<Rightarrow> Some (Inl e)
                       | Some (Inr (buf, evs')) \<Rightarrow>
                           Some (and_then (dispatch os fID buf (s1\<lparr>inbox := evs'\<rparr>))
                                   (\<lambda>(r, s2). Inr (r, unwind s s2)))))))"

text \<open>The forked child of \<open>main\<close>: the loop around \<open>serve\<close>, then \<^verbatim>\<open>close(sessfd)\<close> and
  \<^verbatim>\<open>exit(0)\<close>. \<open>Inr\<close> is the exit with status 0.\<close>

partial_function (option) session_loop :: "'w os \<Rightarrow> 'w state \<Rightarrow> (failure + 'w state) option" where
  "session_loop os s =
     (case serve os s of
        None \<Rightarrow> None
      | Some (Inl e) \<Rightarrow> Some (Inl e)
      | Some (Inr (r, s')) \<Rightarrow> if r = - 1 then Some (Inr s') else session_loop os s')"

definition child :: "'w os \<Rightarrow> 'w state \<Rightarrow> (failure + 'w state) option" where
  "child os s =
     (case session_loop os s of
        None \<Rightarrow> None
      | Some (Inl e) \<Rightarrow> Some (Inl e)
      | Some (Inr s') \<Rightarrow> Some (Inr (s'\<lparr>sess_open := False\<rparr>)))"

text \<open>
  The parent of \<open>main\<close>, after \<^verbatim>\<open>listen\<close>: each turn of its loop accepts a connection and
  forks. It never waits for a child, so what it does depends only on the results of
  \<^verbatim>\<open>accept\<close> and \<^verbatim>\<open>fork\<close>. The result is the connections handed to a child, in order, and
  \<open>None\<close> when the parent is left waiting in \<^verbatim>\<open>accept\<close>, or its exit.
\<close>

datatype incoming = Connection "event list" | ForkFails "event list" | AcceptFails

fun listener :: "incoming list \<Rightarrow> event list list \<times> failure option" where
  "listener [] = ([], None)"
| "listener (AcceptFails # rest) = ([], Some (Exit 1))"
| "listener (ForkFails c # rest) = ([], Some (Exit 1))"
| "listener (Connection c # rest) = (c # fst (listener rest), snd (listener rest))"


section \<open>Properties of the environment and of requests\<close>

text \<open>Every allocation succeeds.\<close>

definition alloc_ok :: "'w os \<Rightarrow> bool" where
  "alloc_ok os = (\<forall>n w. fst (os_malloc os n w))"

text \<open>\<^verbatim>\<open>malloc\<close> and \<^verbatim>\<open>free\<close> leave \<^verbatim>\<open>errno\<close> as it is.\<close>

definition errno_kept :: "'w os \<Rightarrow> bool" where
  "errno_kept os =
     (\<forall>n w. os_errno os (snd (os_malloc os n w)) = os_errno os w \<and>
            os_errno os (os_free os w) = os_errno os w)"

text \<open>\<open>e\<close> is the value \<^verbatim>\<open>errno\<close> has on return from a call of \<^verbatim>\<open>malloc\<close>.\<close>

definition after_malloc :: "'w os \<Rightarrow> 32 word \<Rightarrow> bool" where
  "after_malloc os e = (\<exists>n w. e = os_errno os (snd (os_malloc os n w)))"

text \<open>Every node that has children has a header that fits the first block of
  \<open>serializeTree\<close>.\<close>

fun names_fit :: "dirtreenode \<Rightarrow> bool" where
  "names_fit (Node nm ts) = ((ts \<noteq> [] \<longrightarrow> length nm + 8 \<le> MAXMSGLEN) \<and> list_all names_fit ts)"


text \<open>The bytes the peer delivers before it closes or the transport fails, and their
  number.\<close>

fun stream_bytes :: "event list \<Rightarrow> byte list" where
  "stream_bytes [] = []"
| "stream_bytes (Err # evs) = []"
| "stream_bytes (Data d # evs) = d @ stream_bytes evs"

text \<open>No transport error is pending: the peer sends what is listed and closes.\<close>

fun no_err :: "event list \<Rightarrow> bool" where
  "no_err [] = True"
| "no_err (Err # evs) = False"
| "no_err (Data d # evs) = no_err evs"


section \<open>A concrete environment\<close>

text \<open>
  A small environment to run the model in. Its world is the value of \<^verbatim>\<open>errno\<close>. The
  file system holds the directory \<^verbatim>\<open>/a\<close> with the file \<^verbatim>\<open>b\<close> and the directory \<^verbatim>\<open>c\<close>, which
  holds \<^verbatim>\<open>d\<close>, and the directory \<^verbatim>\<open>/l\<close> with one directory whose name has 255 bytes (the
  longest name a file system takes) and which holds the file \<^verbatim>\<open>b\<close>; descriptor 3 is open
  on a file that reads \<^verbatim>\<open>hello\<close>; everything else fails with \<^verbatim>\<open>ENOENT\<close> (2) or \<^verbatim>\<open>EBADF\<close>
  (9). The stack is new: what has not been written reads as zero. A session starts with
  8 MiB of stack, the usual limit.
\<close>

definition demo_tree :: dirtreenode where
  "demo_tree = Node [0x61] [Node [0x63] [Node [0x64] []], Node [0x62] []]"

definition long_name :: "byte list" where
  "long_name = replicate 255 0x61"

definition long_dir :: dirtreenode where
  "long_dir = Node long_name [Node [0x62] []]"

definition long_tree :: dirtreenode where
  "long_tree = Node [0x6C] [long_dir]"

definition hello :: "byte list" where
  "hello = [0x68, 0x65, 0x6C, 0x6C, 0x6F]"

definition demo_os :: "32 word os" where
  "demo_os =
     \<lparr>os_errno = (\<lambda>w. w),
      os_malloc = (\<lambda>n w. (True, w)),
      os_free = (\<lambda>w. w),
      os_open = (\<lambda>path flag m w. (- 1, 2)),
      os_close = (\<lambda>fd w. if fd = 3 then (0, w) else (- 1, 9)),
      os_write = (\<lambda>fd b n w. (- 1, 9)),
      os_read = (\<lambda>fd n w. if fd = 3 then ((of_nat (min 5 (unat n)), take (unat n) hello), w)
                           else ((- 1, []), 9)),
      os_lseek = (\<lambda>fd off pos w. (- 1, 9)),
      os_stat = (\<lambda>path w. ((- 1, replicate sizeof_stat 0), 2)),
      os_unlink = (\<lambda>path w. (- 1, 2)),
      os_getdirentries = (\<lambda>fd n basep w. ((- 1, []), 9)),
      os_getdirtree = (\<lambda>path w. if path = [0x2F, 0x61] then (Some demo_tree, w)
                                 else if path = [0x2F, 0x6C] then (Some long_tree, w)
                                 else (None, 2)),
      os_freedirtree = (\<lambda>t w. w),
      os_uninit = (\<lambda>w i. 0)\<rparr>"

text \<open>The same environment with an allocator that succeeds and leaves \<^verbatim>\<open>ENOMEM\<close> (12) in
  \<^verbatim>\<open>errno\<close>, as \<^verbatim>\<open>malloc\<close> does when its first attempt to get memory fails and its second
  succeeds.\<close>

definition clobber_os :: "32 word os" where
  "clobber_os = demo_os\<lparr>os_malloc := (\<lambda>n w. (True, 12))\<rparr>"

definition s0 :: "32 word state" where
  "s0 = \<lparr>world = 0, inbox = [], outbox = [], errlog = [], sess_open = True,
          stack = 8388608, fs_errno = 0\<rparr>"

section \<open>Basic facts\<close>
lemma length_le_bytes [simp]: "length (le_bytes n v) = n"
  by (induction n arbitrary: v) auto

lemma length_bytes32 [simp]: "length (bytes32 x) = 4"
  by (simp add: bytes32_def)

lemma length_bytes64 [simp]: "length (bytes64 x) = 8"
  by (simp add: bytes64_def)

lemma le_val_le_bytes: "le_val (le_bytes n v) = v mod 256 ^ n"
proof (induction n arbitrary: v)
  case 0
  then show ?case by simp
next
  case (Suc n)
  have "unat (of_nat (v mod 256) :: byte) = v mod 256"
    by (simp add: unat_of_nat)
  then show ?case
    using Suc by (simp add: mod_mult2_eq)
qed

lemma le_val_bytes32 [simp]: "le_val (bytes32 x) = unat x"
proof -
  have "unat x < 2 ^ 32" using unsigned_less [of x, where ?'a = nat] by simp
  then show ?thesis by (simp add: bytes32_def le_val_le_bytes)
qed

lemma le_val_bytes64 [simp]: "le_val (bytes64 x) = unat x"
proof -
  have "unat x < 2 ^ 64" using unsigned_less [of x, where ?'a = nat] by simp
  then show ?thesis by (simp add: bytes64_def le_val_le_bytes)
qed

lemma load32_at: "length a = off \<Longrightarrow> load32 (a @ bytes32 x @ b) off = Inr x"
  by (simp add: load32_def)

lemma load64_at: "length a = off \<Longrightarrow> load64 (a @ bytes64 x @ b) off = Inr x"
  by (simp add: load64_def)

lemma load32_0 [simp]: "load32 (bytes32 x @ b) 0 = Inr x"
  by (simp add: load32_def)

lemma and_then_Inr [simp]: "and_then (Inr x) f = f x"
  by (simp add: and_then_def)

lemma and_then_Inl [simp]: "and_then (Inl e) f = Inl e"
  by (simp add: and_then_def)

lemma and_then_eq_Inr: "and_then m f = Inr y \<longleftrightarrow> (\<exists>x. m = Inr x \<and> f x = Inr y)"
  by (cases m) simp_all

lemma memcpy_eq_Inr:
  "memcpy dst off src n = Inr b \<longleftrightarrow>
     off + n \<le> length dst \<and> n \<le> length src \<and> b = take off dst @ take n src @ drop (off + n) dst"
  by (auto simp: memcpy_def)

lemma malloc_or_err_eq_Inr:
  "malloc_or_err os n w = Inr r \<longleftrightarrow> os_malloc os n w = (True, snd r) \<and> fst r = replicate n 0"
  by (cases "os_malloc os n w"; cases r) (auto simp: malloc_or_err_def split: bool.splits)

lemma send_eq_Inr:
  "send buf n s = Inr s' \<longleftrightarrow> n \<le> length buf \<and> s' = s\<lparr>outbox := outbox s @ [take n buf]\<rparr>"
  by (auto simp: send_def)

lemma store_byte_eq_Inr:
  "store_byte dst i c = Inr b \<longleftrightarrow> i < length dst \<and> b = dst[i := c]"
  by (auto simp: store_byte_def)

lemma load32_eq_Inr:
  "load32 buf off = Inr v \<longleftrightarrow> off + 4 \<le> length buf \<and> v = of_nat (le_val (take 4 (drop off buf)))"
  by (auto simp: load32_def)

lemma load64_eq_Inr:
  "load64 buf off = Inr v \<longleftrightarrow> off + 8 \<le> length buf \<and> v = of_nat (le_val (take 8 (drop off buf)))"
  by (auto simp: load64_def)

lemmas run_simps = and_then_eq_Inr memcpy_eq_Inr malloc_or_err_eq_Inr send_eq_Inr
  store_byte_eq_Inr

lemma errno_kept_malloc_eq [simp]:
  "errno_kept os \<Longrightarrow> os_errno os (snd (os_malloc os n w)) = os_errno os w"
  unfolding errno_kept_def by simp

lemma errno_kept_free_eq [simp]:
  "errno_kept os \<Longrightarrow> os_errno os (os_free os w) = os_errno os w"
  unfolding errno_kept_def by simp

lemma memcpy_ok:
  "off + n \<le> length dst \<Longrightarrow> n \<le> length src \<Longrightarrow>
   memcpy dst off src n = Inr (take off dst @ take n src @ drop (off + n) dst)"
  by (simp add: memcpy_def)

lemma malloc_or_err_ok:
  "alloc_ok os \<Longrightarrow> malloc_or_err os n w = Inr (replicate n 0, snd (os_malloc os n w))"
proof -
  assume "alloc_ok os"
  then have "fst (os_malloc os n w)" by (simp add: alloc_ok_def)
  then show ?thesis
    by (cases "os_malloc os n w") (simp add: malloc_or_err_def)
qed

lemma serializaTreeNode_ok:
  assumes "alloc_ok os" and "length (name t) + 8 < 2 ^ 31"
  shows "serializaTreeNode os t w =
     Inr (\<lparr>tmp = bytes32 (of_nat (length (name t))) @ bytes32 (of_nat (num_subdirs t)) @ name t,
           len = length (name t) + 8\<rparr>,
          snd (os_malloc os sizeof_ret (snd (os_malloc os (length (name t) + 8) w))))"
  using assms
  by (simp add: serializaTreeNode_def to_int_def malloc_or_err_ok memcpy_ok)

lemma to_int_ok: "n < 2 ^ 31 \<Longrightarrow> to_int n = Inr n"
  by (simp add: to_int_def)

lemma sum_list_member_le: "t \<in> set ts \<Longrightarrow> f t \<le> sum_list (map f ts)" for f :: "'a \<Rightarrow> nat"
  by (induction ts) auto

lemma length_concat_preorder:
  "(\<And>t. t \<in> set ts \<Longrightarrow> length (preorder t) = tree_size t) \<Longrightarrow>
   length (concat (map preorder ts)) = sum_list (map tree_size ts)"
  by (induction ts) auto

lemma length_preorder [simp]: "length (preorder t) = tree_size t"
  by (induction t rule: preorder.induct) (simp add: length_concat_preorder)

lemma serialize_ok:
  shows "alloc_ok os \<Longrightarrow> names_fit t \<Longrightarrow> tree_size t < 2 ^ 31 \<Longrightarrow>
         (\<exists>b w'. serializeTree os t w = Inr (\<lparr>tmp = b, len = tree_size t\<rparr>, w') \<and>
                 tree_size t \<le> length b \<and> take (tree_size t) b = preorder t)"
    and "alloc_ok os \<Longrightarrow> list_all names_fit ts \<Longrightarrow>
         offset + sum_list (map tree_size ts) < 2 ^ 31 \<Longrightarrow>
         offset \<le> length buf \<Longrightarrow> sz \<le> length buf \<Longrightarrow>
         (\<exists>b w'. serializeSubdirs os ts sz buf offset w =
                   Inr ((b, offset + sum_list (map tree_size ts)), w') \<and>
                 offset + sum_list (map tree_size ts) \<le> length b \<and> sz \<le> length b \<and>
                 take (offset + sum_list (map tree_size ts)) b =
                   take offset buf @ concat (map preorder ts))"
proof (induction os t w and os ts sz buf offset w rule: serializeTree_serializeSubdirs.induct)
  case (1 os nm ts w)
  note ok = \<open>alloc_ok os\<close>
  let ?hd = "bytes32 (of_nat (length nm)) @ bytes32 (of_nat (length ts)) @ nm"
  have small: "length nm + 8 < 2 ^ 31"
    using "1.prems"(3) by simp
  have node: "serializaTreeNode os (Node nm ts) w0 =
      Inr (\<lparr>tmp = ?hd, len = length nm + 8\<rparr>,
           snd (os_malloc os sizeof_ret (snd (os_malloc os (length nm + 8) w0))))" for w0
    using serializaTreeNode_ok [OF ok, of "Node nm ts" w0] small
    by (simp add: num_subdirs_def)
  show ?case
  proof (cases "ts = []")
    case True
    then have "serializeTree os (Node nm ts) w = serializaTreeNode os (Node nm ts) w"
      by simp
    with node [of w] True show ?thesis
      by (simp add: add.commute)
  next
    case False
    then have fitn: "length nm + 8 \<le> MAXMSGLEN" and fits: "list_all names_fit ts"
      using "1.prems"(2) by simp_all
    let ?buf1 = "?hd @ replicate (MAXMSGLEN - (length nm + 8)) (0::byte)"
    let ?root = "\<lparr>tmp = ?hd, len = length nm + 8\<rparr>"
    have copy: "memcpy (replicate MAXMSGLEN 0) 0 ?hd (length nm + 8) = Inr ?buf1"
      using fitn by (simp add: memcpy_ok)
    have len1: "length ?buf1 = MAXMSGLEN"
      using fitn by simp
    have "\<exists>b w'. serializeSubdirs os ts MAXMSGLEN ?buf1 (len ?root) (os_free os (os_free os w0)) =
              Inr ((b, len ?root + sum_list (map tree_size ts)), w') \<and>
            len ?root + sum_list (map tree_size ts) \<le> length b \<and> MAXMSGLEN \<le> length b \<and>
            take (len ?root + sum_list (map tree_size ts)) b =
              take (len ?root) ?buf1 @ concat (map preorder ts)" for w0
    proof (rule "1.IH")
      show "length ts \<noteq> 0" using False by simp
      show "alloc_ok os" by (rule ok)
      show "list_all names_fit ts" by (rule fits)
      show "len ?root + sum_list (map tree_size ts) < 2 ^ 31"
        using "1.prems"(3) by simp
      show "len ?root \<le> length ?buf1" using fitn by simp
      show "MAXMSGLEN \<le> length ?buf1" using len1 by simp
    qed
    then obtain b w' where
      sub: "serializeSubdirs os ts MAXMSGLEN ?buf1 (length nm + 8)
              (os_free os (os_free os (snd (os_malloc os sizeof_ret
                 (snd (os_malloc os (length nm + 8) (snd (os_malloc os MAXMSGLEN w)))))))) =
            Inr ((b, length nm + 8 + sum_list (map tree_size ts)), w')"
      and lb: "length nm + 8 + sum_list (map tree_size ts) \<le> length b"
      and tk: "take (length nm + 8 + sum_list (map tree_size ts)) b =
                 take (length nm + 8) ?buf1 @ concat (map preorder ts)"
      by (metis (no_types, lifting) ret.select_convs(2))
    have res: "serializeTree os (Node nm ts) w =
        Inr (\<lparr>tmp = b, len = length nm + 8 + sum_list (map tree_size ts)\<rparr>,
             snd (os_malloc os sizeof_ret w'))"
      using False sub by (simp add: malloc_or_err_ok [OF ok] node copy)
    have "take (length nm + 8) ?buf1 = ?hd" by simp
    with res lb tk show ?thesis
      by (simp add: add.commute add.left_commute)
  qed
next
  case (2 os sz buf offset w)
  then show ?case by simp
next
  case (3 os t ts sz buf offset w)
  note ok = \<open>alloc_ok os\<close>
  have fit: "names_fit t" "list_all names_fit ts"
    using "3.prems"(2) by simp_all
  have sizes: "tree_size t < 2 ^ 31" "offset + tree_size t < 2 ^ 31"
    using "3.prems"(3) by simp_all
  from "3.IH"(1) [OF ok fit(1) sizes(1)] obtain b1 w1 where
    t: "serializeTree os t w = Inr (\<lparr>tmp = b1, len = tree_size t\<rparr>, w1)"
    and lb1: "tree_size t \<le> length b1" and tk1: "take (tree_size t) b1 = preorder t"
    by blast
  let ?off' = "offset + tree_size t"
  let ?step = "(if sz < ?off' then
                     and_then (malloc_or_err os
                        (if 2 * sz < ?off' then ?off' + sz else sz * 2) w1)
                       (\<lambda>(resize, w2).
                     and_then (memcpy resize 0 buf offset) (\<lambda>resize.
                     and_then (memcpy resize offset (tmp \<lparr>tmp = b1, len = tree_size t\<rparr>)
                        (len \<lparr>tmp = b1, len = tree_size t\<rparr>)) (\<lambda>resize.
                     Inr (resize, os_free os w2))))
                   else
                     and_then (memcpy buf offset (tmp \<lparr>tmp = b1, len = tree_size t\<rparr>)
                        (len \<lparr>tmp = b1, len = tree_size t\<rparr>)) (\<lambda>buf.
                     Inr (buf, w1)))"
  have "\<exists>buf' w3. ?step = Inr (buf', w3) \<and> ?off' \<le> length buf' \<and> sz \<le> length buf' \<and>
          take ?off' buf' = take offset buf @ preorder t"
  proof (cases "sz < ?off'")
    case True
    let ?n = "if 2 * sz < ?off' then ?off' + sz else sz * 2"
    have n: "?off' \<le> ?n" "sz \<le> ?n" using True by auto
    let ?r1 = "take offset buf @ drop offset (replicate ?n (0::byte))"
    have c1: "memcpy (replicate ?n 0) 0 buf offset = Inr ?r1"
      using n "3.prems"(4) by (simp add: memcpy_ok)
    have l1: "length ?r1 = ?n" using n "3.prems"(4) by auto
    let ?r2 = "take offset ?r1 @ take (tree_size t) b1 @ drop ?off' ?r1"
    have c2: "memcpy ?r1 offset b1 (tree_size t) = Inr ?r2"
      using memcpy_ok [of offset "tree_size t" ?r1 b1] l1 n lb1 by simp
    have l2: "length ?r2 = ?n" using l1 n lb1 "3.prems"(4) by auto
    have tk2: "take ?off' ?r2 = take offset buf @ preorder t"
      using tk1 lb1 "3.prems"(4) by simp
    have st: "?step = Inr (?r2, os_free os (snd (os_malloc os ?n w1)))"
      using True c1 c2 by (simp add: malloc_or_err_ok [OF ok])
    show ?thesis
    proof (intro exI conjI)
      show "?step = Inr (?r2, os_free os (snd (os_malloc os ?n w1)))" by (rule st)
      show "?off' \<le> length ?r2" by (simp only: l2 n)
      show "sz \<le> length ?r2" by (simp only: l2 n)
      show "take ?off' ?r2 = take offset buf @ preorder t" by (rule tk2)
    qed
  next
    case False
    let ?r = "take offset buf @ take (tree_size t) b1 @ drop ?off' buf"
    have inb: "?off' \<le> length buf" using False "3.prems"(5) by simp
    have c: "memcpy buf offset b1 (tree_size t) = Inr ?r"
      using inb lb1 by (simp add: memcpy_ok)
    have l: "length ?r = length buf" using inb lb1 by auto
    have tk2: "take ?off' ?r = take offset buf @ preorder t"
      using tk1 lb1 inb by simp
    have st: "?step = Inr (?r, w1)" using False c by simp
    show ?thesis
    proof (intro exI conjI)
      show "?step = Inr (?r, w1)" by (rule st)
      show "?off' \<le> length ?r" by (simp only: l inb)
      show "sz \<le> length ?r" by (simp only: l "3.prems"(5))
      show "take ?off' ?r = take offset buf @ preorder t" by (rule tk2)
    qed
  qed
  then obtain buf' w3 where step: "?step = Inr (buf', w3)"
    and lb': "?off' \<le> length buf'" and sb': "sz \<le> length buf'"
    and tk': "take ?off' buf' = take offset buf @ preorder t"
    by blast
  have rest: "?off' + sum_list (map tree_size ts) < 2 ^ 31"
    using "3.prems"(3) by (simp add: add.assoc)
  have ti: "to_int (offset + len \<lparr>tmp = b1, len = tree_size t\<rparr>) = Inr ?off'"
    using sizes(2) by (simp add: to_int_def)
  from "3.IH"(2) [OF t refl ti step refl ok fit(2) rest lb' sb']
  obtain b w' where
    sub: "serializeSubdirs os ts sz buf' ?off' (os_free os (os_free os w3)) =
            Inr ((b, ?off' + sum_list (map tree_size ts)), w')"
    and lb: "?off' + sum_list (map tree_size ts) \<le> length b" and sb: "sz \<le> length b"
    and tk: "take (?off' + sum_list (map tree_size ts)) b = take ?off' buf' @ concat (map preorder ts)"
    by blast
  have "serializeSubdirs os (t # ts) sz buf offset w =
          Inr ((b, ?off' + sum_list (map tree_size ts)), w')"
    using t step sub by (simp add: to_int_ok [OF sizes(2)])
  with lb sb tk tk' show ?case
    by (simp add: add.assoc)
qed


section \<open>The frame reader\<close>

lemma recv_some:
  "stream_bytes evs \<noteq> [] \<Longrightarrow> 0 < n \<Longrightarrow>
   \<exists>k evs'. recv n evs = ((int k, take k (stream_bytes evs)), evs') \<and> 0 < k \<and> k \<le> n \<and>
     k \<le> length (stream_bytes evs) \<and>
     stream_bytes evs' = drop k (stream_bytes evs) \<and> (no_err evs \<longrightarrow> no_err evs')"
proof (induction n evs rule: recv.induct)
  case (1 n)
  then show ?case by simp
next
  case (2 n evs)
  then show ?case by simp
next
  case (3 n d evs)
  show ?case
  proof (cases "d = []")
    case True
    with 3 show ?thesis by simp
  next
    case False
    show ?thesis
    proof (cases "length d \<le> n")
      case True
      with False show ?thesis
        by (intro exI [of _ "length d"] exI [of _ evs]) simp
    next
      case le: False
      with False "3.prems" show ?thesis
        by (intro exI [of _ n] exI [of _ "Data (drop n d) # evs"]) simp
    qed
  qed
qed

lemma recv_none:
  "no_err evs \<Longrightarrow> stream_bytes evs = [] \<Longrightarrow> recv n evs = ((0, []), [])"
  by (induction n evs rule: recv.induct) auto

lemma loop_returns_not_closed:
  assumes "receiveAll_loop bufSize buf maxSize currlen evs = Some y"
  shows "\<not> (currlen < bufSize \<and> evs = [] \<and> nat currlen \<le> length buf)"
  by (rule receiveAll_loop.raw_induct
        [where P = "\<lambda>bs b m c es y. \<not> (c < bs \<and> es = [] \<and> nat c \<le> length b)", OF _ assms])
     (auto simp: memcpy_def split: if_splits)

lemma loop_closed:
  "currlen < bufSize \<Longrightarrow> nat currlen \<le> length buf \<Longrightarrow>
   receiveAll_loop bufSize buf maxSize currlen [] = None"
  using loop_returns_not_closed [of bufSize buf maxSize currlen "[]"]
  by (cases "receiveAll_loop bufSize buf maxSize currlen []") auto

lemma loop_step:
  assumes lt: "currlen < bufSize" and c0: "0 \<le> currlen" and lb: "length buf = nat bufSize"
    and m0: "0 < maxSize" and mle: "maxSize \<le> bufSize - currlen"
    and ne: "stream_bytes evs \<noteq> []"
  shows "\<exists>k evs'. 0 < k \<and> int k \<le> maxSize \<and> k \<le> length (stream_bytes evs) \<and>
           stream_bytes evs' = drop k (stream_bytes evs) \<and> (no_err evs \<longrightarrow> no_err evs') \<and>
           receiveAll_loop bufSize buf maxSize currlen evs =
           receiveAll_loop bufSize
             (take (nat currlen) buf @ take k (stream_bytes evs) @ drop (nat currlen + k) buf)
             (if bufSize - (currlen + int k) < maxSize then bufSize - (currlen + int k) else maxSize)
             (currlen + int k) evs'"
proof -
  from recv_some [OF ne, of "nat maxSize"] m0 obtain k evs' where
    r: "recv (nat maxSize) evs = ((int k, take k (stream_bytes evs)), evs')"
    and k: "0 < k" "k \<le> nat maxSize" "k \<le> length (stream_bytes evs)"
    and rest: "stream_bytes evs' = drop k (stream_bytes evs)" "no_err evs \<longrightarrow> no_err evs'"
    by auto
  have ik: "int k \<le> maxSize" using k(2) m0 by simp
  have "nat currlen + k = nat (currlen + int k)"
    using c0 by (simp add: nat_add_distrib)
  also have "\<dots> \<le> nat bufSize"
    using ik mle by (intro nat_mono) simp
  finally have fits: "nat currlen + k \<le> length buf"
    by (simp add: lb)
  have "receiveAll_loop bufSize buf maxSize currlen evs =
           receiveAll_loop bufSize
             (take (nat currlen) buf @ take k (stream_bytes evs) @ drop (nat currlen + k) buf)
             (if bufSize - (currlen + int k) < maxSize then bufSize - (currlen + int k) else maxSize)
             (currlen + int k) evs'"
    using lt r k(3) fits
    by (subst receiveAll_loop.simps) (simp add: memcpy_def min_absorb2)
  with ik k rest show ?thesis by blast
qed

lemma loop_ok:
  "0 \<le> currlen \<Longrightarrow> currlen \<le> bufSize \<Longrightarrow> length buf = nat bufSize \<Longrightarrow>
   (currlen < bufSize \<longrightarrow> 0 < maxSize) \<Longrightarrow> maxSize \<le> bufSize - currlen \<Longrightarrow>
   nat (bufSize - currlen) \<le> length (stream_bytes evs) \<Longrightarrow>
   \<exists>evs'. receiveAll_loop bufSize buf maxSize currlen evs =
            Some (Inr (take (nat currlen) buf @ take (nat (bufSize - currlen)) (stream_bytes evs), evs')) \<and>
          stream_bytes evs' = drop (nat (bufSize - currlen)) (stream_bytes evs) \<and>
          (no_err evs \<longrightarrow> no_err evs')"
proof (induction "nat (bufSize - currlen)" arbitrary: buf maxSize currlen evs rule: less_induct)
  case less
  show ?case
  proof (cases "currlen < bufSize")
    case False
    with less.prems have "currlen = bufSize" by simp
    then show ?thesis
      using less.prems(3) by (subst receiveAll_loop.simps) simp
  next
    case True
    then have ne: "stream_bytes evs \<noteq> []" using less.prems(6) by auto
    from True less.prems(4) have m0: "0 < maxSize" by simp
    from loop_step [OF True less.prems(1) less.prems(3) m0 less.prems(5) ne]
    obtain k evs' where k: "0 < k" "int k \<le> maxSize" "k \<le> length (stream_bytes evs)"
      and rest: "stream_bytes evs' = drop k (stream_bytes evs)" "no_err evs \<longrightarrow> no_err evs'"
      and step: "receiveAll_loop bufSize buf maxSize currlen evs =
           receiveAll_loop bufSize
             (take (nat currlen) buf @ take k (stream_bytes evs) @ drop (nat currlen + k) buf)
             (if bufSize - (currlen + int k) < maxSize then bufSize - (currlen + int k) else maxSize)
             (currlen + int k) evs'"
      by blast
    let ?buf' = "take (nat currlen) buf @ take k (stream_bytes evs) @ drop (nat currlen + k) buf"
    let ?m' = "if bufSize - (currlen + int k) < maxSize then bufSize - (currlen + int k) else maxSize"
    let ?c' = "currlen + int k"
    have le: "?c' \<le> bufSize" using k(2) less.prems(5) by simp
    have fits: "nat currlen + k \<le> length buf"
      using le less.prems(1,3) by (simp add: nat_le_iff)
    have lb': "length ?buf' = nat bufSize"
      using fits k(3) less.prems(3) by simp
    have dec: "nat (bufSize - ?c') < nat (bufSize - currlen)"
      using k(1) True by simp
    have enough: "nat (bufSize - ?c') \<le> length (stream_bytes evs')"
      using less.prems(6) k(3) by (simp add: rest(1))
    have "\<exists>evs''. receiveAll_loop bufSize ?buf' ?m' ?c' evs' =
            Some (Inr (take (nat ?c') ?buf' @ take (nat (bufSize - ?c')) (stream_bytes evs'), evs'')) \<and>
          stream_bytes evs'' = drop (nat (bufSize - ?c')) (stream_bytes evs') \<and>
          (no_err evs' \<longrightarrow> no_err evs'')"
    proof (rule less.hyps [OF dec])
      show "0 \<le> ?c'" using less.prems(1) by simp
      show "?c' \<le> bufSize" by (rule le)
      show "length ?buf' = nat bufSize" by (rule lb')
      show "?c' < bufSize \<longrightarrow> 0 < ?m'" using m0 by simp
      show "?m' \<le> bufSize - ?c'" by simp
      show "nat (bufSize - ?c') \<le> length (stream_bytes evs')" by (rule enough)
    qed
    then obtain evs'' where
      r: "receiveAll_loop bufSize ?buf' ?m' ?c' evs' =
            Some (Inr (take (nat ?c') ?buf' @ take (nat (bufSize - ?c')) (stream_bytes evs'), evs''))"
      and d: "stream_bytes evs'' = drop (nat (bufSize - ?c')) (stream_bytes evs')"
      and ne': "no_err evs' \<longrightarrow> no_err evs''"
      by blast
    have nc: "nat ?c' = nat currlen + k" using less.prems(1) by (simp add: nat_add_distrib)
    have split: "nat (bufSize - currlen) = k + nat (bufSize - ?c')"
      using le by simp
    have tk1: "take (nat ?c') ?buf' = take (nat currlen) buf @ take k (stream_bytes evs)"
      using fits k(3) by (simp add: nc)
    have tk: "take (nat ?c') ?buf' @ take (nat (bufSize - ?c')) (stream_bytes evs') =
          take (nat currlen) buf @ take (nat (bufSize - currlen)) (stream_bytes evs)"
      unfolding tk1 rest(1) split by (simp add: take_add)
    have dr: "stream_bytes evs'' = drop (nat (bufSize - currlen)) (stream_bytes evs)"
      unfolding d rest(1) split by (simp add: add.commute)
    show ?thesis
      using step r tk dr ne' rest(2) by (intro exI [of _ evs'']) simp
  qed
qed

lemma loop_starved:
  "no_err evs \<Longrightarrow> length (stream_bytes evs) < nat (bufSize - currlen) \<Longrightarrow> 0 \<le> currlen \<Longrightarrow>
   length buf = nat bufSize \<Longrightarrow> 0 < maxSize \<Longrightarrow> maxSize \<le> bufSize - currlen \<Longrightarrow>
   receiveAll_loop bufSize buf maxSize currlen evs = None"
proof (induction "length (stream_bytes evs)" arbitrary: buf maxSize currlen evs rule: less_induct)
  case less
  from less.prems(2) have lt: "currlen < bufSize" by simp
  have inb: "nat currlen \<le> length buf"
    using lt less.prems(3,4) by simp
  show ?case
  proof (cases "stream_bytes evs = []")
    case True
    have "recv (nat maxSize) evs = ((0, []), [])"
      by (rule recv_none [OF less.prems(1) True])
    then have "receiveAll_loop bufSize buf maxSize currlen evs =
        receiveAll_loop bufSize buf (if bufSize - currlen < maxSize then bufSize - currlen else maxSize)
          currlen []"
      using lt inb by (subst receiveAll_loop.simps) (simp add: memcpy_def)
    then show ?thesis
      by (simp only: loop_closed [OF lt inb])
  next
    case False
    from loop_step [OF lt less.prems(3) less.prems(4) less.prems(5) less.prems(6) False]
    obtain k evs' where k: "0 < k" "int k \<le> maxSize" "k \<le> length (stream_bytes evs)"
      and rest: "stream_bytes evs' = drop k (stream_bytes evs)" "no_err evs \<longrightarrow> no_err evs'"
      and step: "receiveAll_loop bufSize buf maxSize currlen evs =
           receiveAll_loop bufSize
             (take (nat currlen) buf @ take k (stream_bytes evs) @ drop (nat currlen + k) buf)
             (if bufSize - (currlen + int k) < maxSize then bufSize - (currlen + int k) else maxSize)
             (currlen + int k) evs'"
      by blast
    let ?buf' = "take (nat currlen) buf @ take k (stream_bytes evs) @ drop (nat currlen + k) buf"
    let ?m' = "if bufSize - (currlen + int k) < maxSize then bufSize - (currlen + int k) else maxSize"
    let ?c' = "currlen + int k"
    have le: "?c' \<le> bufSize" using k(2) less.prems(6) by simp
    have fits: "nat currlen + k \<le> length buf"
      using le less.prems(3,4) by (simp add: nat_le_iff)
    have short: "length (stream_bytes evs') < nat (bufSize - ?c')"
      using less.prems(2) k(3) by (simp add: rest(1))
    have "receiveAll_loop bufSize ?buf' ?m' ?c' evs' = None"
    proof (rule less.hyps)
      show "length (stream_bytes evs') < length (stream_bytes evs)"
        using k(1,3) by (simp add: rest(1))
      show "no_err evs'" using rest(2) less.prems(1) by simp
      show "length (stream_bytes evs') < nat (bufSize - ?c')" by (rule short)
      show "0 \<le> ?c'" using less.prems(3) by simp
      show "length ?buf' = nat bufSize" using fits k(3) less.prems(4) by simp
      have "?c' < bufSize" using short by linarith
      then show "0 < ?m'" using less.prems(5) by simp
      show "?m' \<le> bufSize - ?c'" by simp
    qed
    with step show ?thesis by simp
  qed
qed

lemma receiveAll_ok:
  assumes "0 \<le> bufSize" and "length buf = nat bufSize"
    and "nat bufSize \<le> length (stream_bytes evs)"
  shows "\<exists>evs'. receiveAll buf bufSize evs = Some (Inr (take (nat bufSize) (stream_bytes evs), evs')) \<and>
          stream_bytes evs' = drop (nat bufSize) (stream_bytes evs) \<and> (no_err evs \<longrightarrow> no_err evs')"
  using loop_ok [of 0 bufSize buf "if bufSize < int MAXMSGLEN then bufSize else int MAXMSGLEN" evs]
    assms
  by (simp add: receiveAll_def MAXMSGLEN_def)

lemma receiveAll_starved:
  assumes "no_err evs" and "length (stream_bytes evs) < nat bufSize" and "length buf = nat bufSize"
  shows "receiveAll buf bufSize evs = None"
  using loop_starved [of evs bufSize 0 buf "if bufSize < int MAXMSGLEN then bufSize else int MAXMSGLEN"]
    assms
  by (auto simp: receiveAll_def MAXMSGLEN_def split: if_splits)


section \<open>The session handler\<close>

lemma bytes32_not_Nil [simp]: "bytes32 x \<noteq> []"
  using length_bytes32 [of x] by (cases "bytes32 x") simp_all

lemma bytes64_not_Nil [simp]: "bytes64 x \<noteq> []"
  using length_bytes64 [of x] by (cases "bytes64 x") simp_all

lemma load32_append_skip:
  "length a \<le> off \<Longrightarrow> load32 (a @ b) off = load32 b (off - length a)"
  by (simp add: load32_def) arith

lemma load64_append_skip:
  "length a \<le> off \<Longrightarrow> load64 (a @ b) off = load64 b (off - length a)"
  by (simp add: load64_def) arith

lemma load32_single [simp]: "load32 (bytes32 x) 0 = Inr x"
  using load32_0 [of x "[]"] by simp

lemma load64_0 [simp]: "load64 (bytes64 x @ b) 0 = Inr x"
  by (simp add: load64_def)

lemma load64_single [simp]: "load64 (bytes64 x) 0 = Inr x"
  using load64_0 [of x "[]"] by simp

lemma recv_header:
  "recv 8 (Data (bytes32 fID @ bytes32 n @ extra) # rest) =
     ((8, bytes32 fID @ bytes32 n), if extra = [] then rest else Data extra # rest)"
  by simp

lemma length_uninit [simp]: "length (map (os_uninit os w) [0..<k]) = k"
  by simp

lemma serve_header:
  assumes "inbox s = Data (bytes32 fID @ bytes32 n @ extra) # rest"
  shows "serve os s =
     (case vla (sint n) s of
        Inl e \<Rightarrow> Some (Inl e)
      | Inr (buf, s1) \<Rightarrow>
          (case receiveAll buf (sint n) (if extra = [] then rest else Data extra # rest) of
             None \<Rightarrow> None
           | Some (Inl e) \<Rightarrow> Some (Inl e)
           | Some (Inr (buf, evs')) \<Rightarrow>
               Some (and_then (dispatch os fID buf (s1\<lparr>inbox := evs'\<rparr>))
                       (\<lambda>(r, s2). Inr (r, unwind s s2)))))"
proof -
  have m: "memcpy (map (os_uninit os (world s)) [0..<8]) 0 (bytes32 fID @ bytes32 n) 8 =
      Inr (bytes32 fID @ bytes32 n)"
    by (simp only: memcpy_def length_uninit length_append length_bytes32 take0 drop_all
        append_Nil append_Nil2 take_all) simp
  show ?thesis
    unfolding serve_def assms
    by (simp add: recv_header m load32_append_skip split: sum.splits prod.splits)
qed

lemma serve_frame:
  assumes inb: "inbox s = Data (bytes32 fID @ bytes32 n @ extra) # rest"
    and n0: "0 \<le> sint n"
    and fits: "sint n \<le> int (stack s)"
    and enough: "nat (sint n) \<le> length (extra @ stream_bytes rest)"
  shows "\<exists>evs'. serve os s =
            Some (and_then
                    (dispatch os fID (take (nat (sint n)) (extra @ stream_bytes rest))
                       (s\<lparr>stack := stack s - nat (sint n), inbox := evs'\<rparr>))
                    (\<lambda>(r, s2). Inr (r, unwind s s2))) \<and>
          stream_bytes evs' = drop (nat (sint n)) (extra @ stream_bytes rest) \<and>
          (no_err rest \<longrightarrow> no_err evs')"
proof -
  let ?evs = "if extra = [] then rest else Data extra # rest"
  have sb: "stream_bytes ?evs = extra @ stream_bytes rest" by simp
  have ne: "no_err ?evs = no_err rest" by simp
  from receiveAll_ok [of "sint n" "replicate (nat (sint n)) 0" ?evs] n0 enough
  obtain evs' where r: "receiveAll (replicate (nat (sint n)) 0) (sint n) ?evs =
        Some (Inr (take (nat (sint n)) (stream_bytes ?evs), evs'))"
    and d: "stream_bytes evs' = drop (nat (sint n)) (stream_bytes ?evs)"
    and e: "no_err ?evs \<longrightarrow> no_err evs'"
    unfolding sb by auto
  have "serve os s =
      Some (and_then
              (dispatch os fID (take (nat (sint n)) (stream_bytes ?evs))
                 (s\<lparr>stack := stack s - nat (sint n), inbox := evs'\<rparr>))
              (\<lambda>(r, s2). Inr (r, unwind s s2)))"
    using n0 fits r by (simp add: serve_header [OF inb] vla_def)
  with d e show ?thesis unfolding sb ne by blast
qed

lemma serve_negative_length:
  assumes "inbox s = Data (bytes32 fID @ bytes32 n @ extra) # rest" and "sint n < 0"
  shows "serve os s = Some (Inl Fault)"
  using assms(2) by (simp add: serve_header [OF assms(1)] vla_def)

lemma serve_stack_exceeded:
  assumes "inbox s = Data (bytes32 fID @ bytes32 n @ extra) # rest" and "int (stack s) < sint n"
  shows "serve os s = Some (Inl Fault)"
  using assms(2) by (simp add: serve_header [OF assms(1)] vla_def)

lemma unwind_simps [simp]:
  "outbox (unwind s x) = outbox x" "world (unwind s x) = world x" "inbox (unwind s x) = inbox x"
  "errlog (unwind s x) = errlog x" "sess_open (unwind s x) = sess_open x"
  "fs_errno (unwind s x) = fs_errno x" "stack (unwind s x) = stack s"
  by (simp_all add: unwind_def)

lemma serve_peer_closed: "serve os (s\<lparr>inbox := []\<rparr>) = Some (Inr (- 1, s\<lparr>inbox := []\<rparr>))"
  by (simp add: serve_def memcpy_def)

lemma child_finished:
  "serve os s = Some (Inr (- 1, s')) \<Longrightarrow> child os s = Some (Inr (s'\<lparr>sess_open := False\<rparr>))"
  by (simp add: child_def session_loop.simps [of os s])

lemma dispatch_unknown:
  "8 < fID \<Longrightarrow> dispatch os fID buf s = Inr (- 1, s\<lparr>errlog := errlog s @ [''undefined function \<newline>'']\<rparr>)"
  by (auto simp: dispatch_def)


section \<open>Word arithmetic and the handlers\<close>

lemma nonneg_sint_uint:
  fixes w :: "'a::len word"
  assumes "0 \<le> sint w"
  shows "uint w = sint w"
proof -
  have "sint w < 2 ^ (LENGTH('a) - 1)" by (rule sint_lt)
  also have "(2 :: int) ^ (LENGTH('a) - 1) \<le> 2 ^ LENGTH('a)"
    by (rule power_increasing) simp_all
  finally have "take_bit LENGTH('a) (sint w) = sint w"
    using assms by (simp add: take_bit_int_eq_self)
  then show ?thesis by (simp add: uint_sint)
qed

lemma nonneg_unat:
  fixes w :: "'a::len word"
  assumes "0 \<le> sint w"
  shows "int (unat w) = sint w" and "unat w < 2 ^ (LENGTH('a) - 1)"
proof -
  show 1: "int (unat w) = sint w"
    using nonneg_sint_uint [OF assms] by simp
  have "sint w < 2 ^ (LENGTH('a) - 1)" by (rule sint_lt)
  with 1 have "int (unat w) < 2 ^ (LENGTH('a) - 1)" by simp
  then show "unat w < 2 ^ (LENGTH('a) - 1)"
    by (metis of_nat_less_iff of_nat_numeral of_nat_power)
qed

lemma small_sint:
  fixes w :: "'a::len word"
  assumes "unat w < 2 ^ (LENGTH('a) - 1)"
  shows "sint w = int (unat w)"
proof -
  have "uint w < 2 ^ (LENGTH('a) - 1)"
    using assms by (metis of_nat_less_iff of_nat_numeral of_nat_power uint_nat)
  moreover have "- (2 ^ (LENGTH('a) - 1)) \<le> uint w"
    by (rule order_trans [of _ 0]) simp_all
  ultimately have "signed_take_bit (LENGTH('a) - 1) (uint w) = uint w"
    by (simp add: signed_take_bit_int_eq_self)
  then show ?thesis by (simp add: sint_uint)
qed

lemma scast_nonneg:
  fixes n :: "32 word"
  assumes "0 \<le> sint n"
  shows "unat (scast n :: 64 word) = unat n"
proof -
  have b: "sint n < 2 ^ 31" using sint_lt [of n] by simp
  have "sint (scast n :: 64 word) = signed_take_bit 63 (sint n)"
    by (simp add: signed_scast_eq)
  also have "\<dots> = sint n"
    using assms b by (simp add: signed_take_bit_int_eq_self)
  finally have s: "sint (scast n :: 64 word) = sint n" .
  then have "0 \<le> sint (scast n :: 64 word)" using assms by simp
  from nonneg_sint_uint [OF this] s nonneg_sint_uint [OF assms]
  have "uint (scast n :: 64 word) = uint n" by simp
  then show ?thesis by (simp only: unat_eq_nat_uint)
qed

lemma unat_plus_small64:
  fixes x :: "64 word"
  assumes "0 \<le> sint x" and "k < 2 ^ 63"
  shows "unat (x + of_nat k) = unat x + k"
proof -
  have "unat x < 2 ^ 63" using nonneg_unat(2) [OF assms(1)] by simp
  moreover have "unat (of_nat k :: 64 word) = k"
    using assms(2) by (simp add: unat_of_nat)
  ultimately show ?thesis
    using unat_add_lem [of x "of_nat k"] assms(2) by simp
qed

lemma serveRead_forward:
  assumes ok: "alloc_ok os" and fd: "load32 buf 0 = Inr fildes" and nb: "load64 buf 4 = Inr nbyte"
    and rd: "os_read os fildes nbyte (snd (os_malloc os (unat nbyte) (world s))) = ((res, data), w2)"
    and fits: "length data \<le> unat nbyte"
    and res: "res = - 1 \<or> 0 \<le> sint res \<and> unat res = length data"
  shows "\<exists>s' e. serveRead os buf s = Inr s' \<and>
           outbox s' = outbox s @
             [if res = - 1 then bytes32 12 @ bytes64 res @ bytes32 e
              else bytes32 (ucast (res + 12)) @ bytes64 res @ bytes32 e @ data]"
proof (cases "res = - 1")
  case True
  then show ?thesis
    using fits
    by (auto simp: serveRead_def fd nb rd malloc_or_err_ok [OF ok] memcpy_ok send_def)
next
  case False
  with res have nn: "0 \<le> sint res" and ln: "unat res = length data" by simp_all
  have u16: "unat (res + 16) = length data + 16"
    using unat_plus_small64 [OF nn, of 16] ln by simp
  show ?thesis
    using False fits ln u16
    by (auto simp: serveRead_def fd nb rd malloc_or_err_ok [OF ok] memcpy_ok send_def
        add.commute)
qed

lemma to_int_eq_Inr: "to_int n = Inr m \<longleftrightarrow> n < 2 ^ 31 \<and> m = n"
  by (auto simp: to_int_def)

lemma errno_kept_mallocD:
  "errno_kept os \<Longrightarrow> os_malloc os n w = (g, w') \<Longrightarrow> os_errno os w' = os_errno os w"
  using errno_kept_malloc_eq [of os n w] by simp

lemma serializaTreeNode_run:
  assumes "serializaTreeNode os t w = Inr (r, w')"
  shows "len r = length (tmp r)" and "len r < 2 ^ 31"
    and "errno_kept os \<Longrightarrow> os_errno os w' = os_errno os w"
proof -
  from assms obtain w1 where m1: "os_malloc os (length (name t) + 8) w = (True, w1)"
    and m2: "os_malloc os sizeof_ret w1 = (True, w')"
    and r: "len r = length (tmp r)" "len r < 2 ^ 31"
    by (auto simp: serializaTreeNode_def run_simps to_int_eq_Inr split: prod.splits)
  show "len r = length (tmp r)" and "len r < 2 ^ 31" by (rule r)+
  show "os_errno os w' = os_errno os w" if "errno_kept os"
    using errno_kept_mallocD [OF that m1] errno_kept_mallocD [OF that m2] by simp
qed

lemma serialize_run:
  shows "serializeTree os t w = Inr (sr, w') \<Longrightarrow>
         len sr \<le> length (tmp sr) \<and> len sr < 2 ^ 31 \<and>
         (errno_kept os \<longrightarrow> os_errno os w' = os_errno os w)"
    and "serializeSubdirs os ts sz buf offset w = Inr ((b, off'), w') \<Longrightarrow>
         offset \<le> length buf \<Longrightarrow> offset < 2 ^ 31 \<Longrightarrow>
         off' \<le> length b \<and> off' < 2 ^ 31 \<and>
         (errno_kept os \<longrightarrow> os_errno os w' = os_errno os w)"
proof (induction os t w and os ts sz buf offset w arbitrary: sr w' and b off' w'
    rule: serializeTree_serializeSubdirs.induct)
  case (1 os nm ts w)
  show ?case
  proof (cases "ts = []")
    case True
    with "1.prems" have "serializaTreeNode os (Node nm ts) w = Inr (sr, w')" by simp
    from serializaTreeNode_run [OF this] show ?thesis by simp
  next
    case False
    with "1.prems" obtain w1 root w2 buf1 w3 where
      m: "os_malloc os MAXMSGLEN w = (True, w1)"
      and n: "serializaTreeNode os (Node nm ts) w1 = Inr (root, w2)"
      and c: "memcpy (replicate MAXMSGLEN 0) 0 (tmp root) (len root) = Inr buf1"
      and sub: "serializeSubdirs os ts MAXMSGLEN buf1 (len root) (os_free os (os_free os w2)) =
                  Inr ((tmp sr, len sr), w3)"
      and f: "os_malloc os sizeof_ret w3 = (True, w')"
      by (auto simp: run_simps split: prod.splits)
    from c have l1: "len root \<le> length buf1" by (auto simp: memcpy_eq_Inr)
    note nr = serializaTreeNode_run [OF n]
    from "1.IH" [OF _ sub l1 nr(2)] False
    have r: "len sr \<le> length (tmp sr)" "len sr < 2 ^ 31"
      "errno_kept os \<longrightarrow> os_errno os w3 = os_errno os (os_free os (os_free os w2))"
      by simp_all
    have "os_errno os w' = os_errno os w" if k: "errno_kept os"
      using r(3) nr(3) [OF k] errno_kept_mallocD [OF k m] errno_kept_mallocD [OF k f] k
      by simp
    with r show ?thesis by simp
  qed
next
  case (2 os sz buf offset w)
  then show ?case by simp
next
  case (3 os t ts sz buf offset w)
  from "3.prems"(1) obtain sr1 w1 offset' buf' w3 where
    t: "serializeTree os t w = Inr (sr1, w1)"
    and ti: "to_int (offset + len sr1) = Inr offset'"
    and step: "(if sz < offset' then
                     and_then (malloc_or_err os
                        (if 2 * sz < offset' then offset' + sz else sz * 2) w1)
                       (\<lambda>(resize, w2).
                     and_then (memcpy resize 0 buf offset) (\<lambda>resize.
                     and_then (memcpy resize offset (tmp sr1) (len sr1)) (\<lambda>resize.
                     Inr (resize, os_free os w2))))
                   else
                     and_then (memcpy buf offset (tmp sr1) (len sr1)) (\<lambda>buf.
                     Inr (buf, w1))) = Inr (buf', w3)"
    and rest: "serializeSubdirs os ts sz buf' offset' (os_free os (os_free os w3)) =
                 Inr ((b, off'), w')"
    by (auto split: sum.splits prod.splits)
  from ti have o': "offset' = offset + len sr1" "offset' < 2 ^ 31"
    by (simp_all add: to_int_eq_Inr)
  note tr = "3.IH"(1) [OF t]
  have lb': "offset' \<le> length buf'"
    using step o'(1) by (auto simp: run_simps split: if_splits prod.splits)
  have e3: "os_errno os w3 = os_errno os w1" if k: "errno_kept os"
    using step k by (auto simp: run_simps split: if_splits prod.splits dest: errno_kept_mallocD)
  from "3.IH"(2) [OF t refl ti step refl rest lb' o'(2)]
  have r: "off' \<le> length b" "off' < 2 ^ 31"
    "errno_kept os \<longrightarrow> os_errno os w' = os_errno os (os_free os (os_free os w3))"
    by simp_all
  have "os_errno os w' = os_errno os w" if k: "errno_kept os"
    using r(3) e3 [OF k] tr k by simp
  with r show ?case by simp
qed

lemma ucast_of_nat_small:
  assumes "k < 2 ^ 64"
  shows "(ucast (of_nat k :: 64 word) :: 32 word) = of_nat k"
proof -
  have "(ucast (of_nat k :: 64 word) :: 32 word) = of_nat (unat (of_nat k :: 64 word))"
    by (simp only: of_nat_unat)
  also have "unat (of_nat k :: 64 word) = k"
    using assms by (simp add: unat_of_nat)
  finally show ?thesis .
qed

lemma unat_of_nat_small64: "k < 2 ^ 64 \<Longrightarrow> unat (of_nat k :: 64 word) = k"
  by (simp add: unat_of_nat)

lemma drop_replicate_Cons: "drop k (x # replicate k x) = [x]"
  by (induction k) simp_all

lemma vla_fits:
  "0 \<le> k \<Longrightarrow> k \<le> int (stack s) \<Longrightarrow>
   vla k s = Inr (replicate (nat k) 0, s\<lparr>stack := stack s - nat k\<rparr>)"
  by (simp add: vla_def)

lemma path_vla:
  fixes n :: "32 word"
  assumes lb: "4 + unat n \<le> length buf" and small: "length buf < 2 ^ 31"
    and fits: "unat n + 1 \<le> stack s"
  shows "vla (sint (n + 1)) s =
           Inr (replicate (unat n + 1) 0, s\<lparr>stack := stack s - (unat n + 1)\<rparr>)"
proof -
  have un: "unat n + 1 < 2 ^ 31" using lb small by simp
  have "unat n + unat (1 :: 32 word) < 2 ^ LENGTH(32)" using un by simp
  then have u1: "unat (n + 1) = unat n + 1"
    using unat_add_lem [of n 1] by simp
  have s1: "sint (n + 1) = int (unat n) + 1"
    using small_sint [of "n + 1"] un u1 by simp
  have nn: "\<not> (sint (n + 1) < 0 \<or> int (stack s) < sint (n + 1))"
    unfolding s1 using fits by linarith
  have nat1: "nat (sint (n + 1)) = unat n + 1" unfolding s1 by linarith
  show ?thesis
    by (simp only: vla_def nn if_False nat1)
qed

lemma path_block:
  fixes n :: "32 word"
  assumes n0: "0 \<le> sint n" and lb: "4 + unat n \<le> length buf" and small: "length buf < 2 ^ 31"
    and fits: "unat n + 1 \<le> stack s"
  shows "and_then (vla (sint (n + 1)) s) (\<lambda>(path, s1).
         and_then (memcpy path 0 (drop 4 buf) (unat (scast n :: 64 word))) (\<lambda>path.
         and_then (store_at path (sint n) 0) (f s1))) =
         f (s\<lparr>stack := stack s - (unat n + 1)\<rparr>) (take (unat n) (drop 4 buf) @ [0])"
proof -
  have s0: "sint n = int (unat n)"
    using nonneg_unat(1) [OF n0] by simp
  have c: "memcpy (replicate (unat n + 1) 0) 0 (drop 4 buf) (unat (scast n :: 64 word)) =
      Inr (take (unat n) (drop 4 buf) @ [0])"
    using lb by (simp add: scast_nonneg [OF n0] memcpy_def drop_replicate_Cons)
  have st: "store_at (take (unat n) (drop 4 buf) @ [0]) (sint n) 0 =
      Inr (take (unat n) (drop 4 buf) @ [0])"
    using lb by (simp add: store_at_def store_byte_def s0 list_update_append min_absorb2)
  show ?thesis
    by (simp only: path_vla [OF lb small fits] c st and_then_Inr prod.case)
qed

lemma serveGetdirtree_forward:
  assumes n: "load32 buf 0 = Inr n" and n0: "0 \<le> sint n" and lb: "4 + unat n \<le> length buf"
    and small: "length buf < 2 ^ 31" and fits: "unat n + 1 \<le> stack s"
    and gd: "os_getdirtree os (c_string (take (unat n) (drop 4 buf) @ [0])) (world s) = (t, w1)"
  shows "(t = None \<longrightarrow>
           (\<exists>s'. serveGetdirtree os buf s = Inr s' \<and>
              outbox s' = outbox s @ [bytes32 8 @ bytes32 1 @ bytes32 (os_errno os w1)])) \<and>
         (\<forall>tr sr w2. t = Some tr \<longrightarrow> serializeTree os tr w1 = Inr (sr, w2) \<longrightarrow>
              unat n + 1 + (len sr + 21) \<le> stack s \<longrightarrow>
           (\<exists>s'. serveGetdirtree os buf s = Inr s' \<and>
              outbox s' = outbox s @
                [bytes32 (17 + of_nat (len sr)) @ bytes32 0 @ bytes64 (of_nat (len sr)) @
                 bytes32 (os_errno os w2) @ take (len sr) (tmp sr) @ [0]]))"
proof (intro conjI impI allI)
  assume "t = None"
  with gd show "\<exists>s'. serveGetdirtree os buf s = Inr s' \<and>
      outbox s' = outbox s @ [bytes32 8 @ bytes32 1 @ bytes32 (os_errno os w1)]"
    by (simp add: serveGetdirtree_def n path_block [OF n0 lb small fits] memcpy_ok send_def)
next
  fix tr sr w2
  assume t: "t = Some tr" and ser: "serializeTree os tr w1 = Inr (sr, w2)"
    and fits2: "unat n + 1 + (len sr + 21) \<le> stack s"
  from serialize_run(1) [OF ser] have l: "len sr \<le> length (tmp sr)" "len sr < 2 ^ 31"
    by simp_all
  have ul: "unat (of_nat (len sr) :: 64 word) = len sr"
    using l(2) by (simp add: unat_of_nat)
  have "(21 :: 64 word) + of_nat (len sr) = of_nat (21 + len sr)" by simp
  then have u21: "unat (21 + of_nat (len sr) :: 64 word) = 21 + len sr"
    using l(2) by (simp only: unat_of_nat) simp
  have "(17 :: 64 word) + of_nat (len sr) = of_nat (17 + len sr)" by simp
  then have "(ucast (17 + of_nat (len sr) :: 64 word) :: 32 word) = of_nat (17 + len sr)"
    using ucast_of_nat_small [of "17 + len sr"] l(2) by simp
  then have uc: "(ucast (17 + of_nat (len sr) :: 64 word) :: 32 word) = 17 + of_nat (len sr)"
    by simp
  have uint21: "uint (21 + of_nat (len sr) :: 64 word) = 21 + int (len sr)"
    using u21 by (simp only: uint_nat)
  have v2: "vla (21 + int (len sr)) (s\<lparr>stack := stack s - Suc (unat n)\<rparr>) =
      Inr (replicate (21 + len sr) 0,
           s\<lparr>stack := stack s - Suc (unat n)\<rparr>
            \<lparr>stack := stack (s\<lparr>stack := stack s - Suc (unat n)\<rparr>) - (21 + len sr)\<rparr>)"
  proof -
    have "nat (21 + int (len sr)) = 21 + len sr" by simp
    moreover have "21 + int (len sr) \<le> int (stack (s\<lparr>stack := stack s - Suc (unat n)\<rparr>))"
    proof -
      have "21 + len sr \<le> stack s - Suc (unat n)" using fits2 by linarith
      then have "int (21 + len sr) \<le> int (stack s - Suc (unat n))"
        by (simp only: of_nat_le_iff)
      then show ?thesis by (simp del: of_nat_diff)
    qed
    moreover have "0 \<le> 21 + int (len sr)" by simp
    ultimately show ?thesis using vla_fits [of "21 + int (len sr)"] by metis
  qed
  show "\<exists>s'. serveGetdirtree os buf s = Inr s' \<and>
      outbox s' = outbox s @
        [bytes32 (17 + of_nat (len sr)) @ bytes32 0 @ bytes64 (of_nat (len sr)) @
         bytes32 (os_errno os w2) @ take (len sr) (tmp sr) @ [0]]"
    using gd t ser l(1) fits2
    by (simp add: serveGetdirtree_def n path_block [OF n0 lb small fits] memcpy_ok send_def
        v2 uint21
        Let_def ul u21 uc store_byte_def list_update_append drop_replicate_Cons)
qed


section \<open>Where the error code of a reply comes from\<close>







lemma after_mallocI [simp]: "after_malloc os (os_errno os (snd (os_malloc os n w)))"
  unfolding after_malloc_def by blast






























section \<open>The environment used in examples\<close>

lemma demo_os_simps [simp]:
  "os_errno demo_os w = w"
  "os_malloc demo_os n w = (True, w)"
  "os_free demo_os w = w"
  "os_open demo_os path flag m w = (- 1, 2)"
  "os_close demo_os fd w = (if fd = 3 then (0, w) else (- 1, 9))"
  "os_write demo_os fd b nb w = (- 1, 9)"
  "os_read demo_os fd nb w =
     (if fd = 3 then ((of_nat (min 5 (unat nb)), take (unat nb) hello), w) else ((- 1, []), 9))"
  "os_lseek demo_os fd off pos w = (- 1, 9)"
  "os_stat demo_os path w = ((- 1, replicate sizeof_stat 0), 2)"
  "os_unlink demo_os path w = (- 1, 2)"
  "os_getdirentries demo_os fd nb basep w = ((- 1, []), 9)"
  "os_getdirtree demo_os path w =
     (if path = [0x2F, 0x61] then (Some demo_tree, w)
      else if path = [0x2F, 0x6C] then (Some long_tree, w) else (None, 2))"
  "os_freedirtree demo_os t w = w"
  "os_uninit demo_os w i = 0"
  by (simp_all add: demo_os_def)

lemma alloc_ok_demo_os: "alloc_ok demo_os"
  by (simp add: alloc_ok_def)


lemma serveGetdirentries_demo:
  "serveGetdirentries demo_os (bytes32 fd @ bytes64 nb @ bytes64 basep) s = Inl Fault"
  by (simp add: serveGetdirentries_def load64_append_skip malloc_or_err_def memcpy_def vla_def)

lemma c_string_demo: "c_string ([0x2F, 0x61, 0] :: byte list) = [0x2F, 0x61]"
  by (simp add: c_string_def)

lemma serialize_demo_tree:
  "\<exists>b w'. serializeTree demo_os demo_tree w = Inr (\<lparr>tmp = b, len = 36\<rparr>, w') \<and>
     take 36 b = preorder demo_tree"
proof -
  have "names_fit demo_tree" by (simp add: demo_tree_def MAXMSGLEN_def)
  moreover have "tree_size demo_tree = 36" by (simp add: demo_tree_def)
  ultimately show ?thesis
    using serialize_ok(1) [OF alloc_ok_demo_os, of demo_tree w] by auto
qed

lemma clobber_os_simps [simp]:
  "os_errno clobber_os w = w"
  "os_malloc clobber_os n w = (True, 12)"
  "os_free clobber_os w = w"
  "os_open clobber_os path flag m w = (- 1, 2)"
  by (simp_all add: clobber_os_def demo_os_def)


lemma receiveAll_transport_error:
  assumes "0 < bufSize"
  shows "receiveAll buf bufSize (Err # evs) = Some (Inl (Exit 1))"
  using assms
  by (simp add: receiveAll_def receiveAll_loop.simps [of bufSize buf _ 0 "Err # evs"] memcpy_def)

section \<open>Claims\<close>

lemma serializeTree_long_name:
  "MAXMSGLEN < length nm + 8 \<Longrightarrow> ts \<noteq> [] \<Longrightarrow>
   serializeTree os (Node nm ts) w = Inl Fault \<or> serializeTree os (Node nm ts) w = Inl (Exit 1)"
  by (auto simp: serializaTreeNode_def malloc_or_err_def to_int_def memcpy_def MAXMSGLEN_def
        and_then_def split: prod.splits bool.splits sum.splits)

lemma serializeTree_long_name_demo:
  "MAXMSGLEN < length nm + 8 \<Longrightarrow> length nm + 8 < 2 ^ 31 \<Longrightarrow> ts \<noteq> [] \<Longrightarrow>
   serializeTree demo_os (Node nm ts) w = Inl Fault"
  by (simp add: serializaTreeNode_ok [OF alloc_ok_demo_os] malloc_or_err_ok [OF alloc_ok_demo_os]
        memcpy_def)

lemma length_long_name: "length long_name = 255"
  by (simp only: long_name_def length_replicate)

lemma serializeTree_long_dir: "serializeTree demo_os long_dir w = Inl Fault"
  unfolding long_dir_def
  by (rule serializeTree_long_name_demo) (simp_all add: MAXMSGLEN_def length_long_name)

lemma serializeTree_first_child_fails:
  assumes "\<And>w'. serializeTree os t w' = Inl e" and "alloc_ok os" and "length nm + 8 \<le> MAXMSGLEN"
  shows "serializeTree os (Node nm (t # ts)) w = Inl e"
  using assms(3)
  by (simp add: serializaTreeNode_ok [OF assms(2)] malloc_or_err_ok [OF assms(2)] memcpy_def
        assms(1) MAXMSGLEN_def)

lemma serializeTree_long_tree: "serializeTree demo_os long_tree w = Inl Fault"
  unfolding long_tree_def
  by (rule serializeTree_first_child_fails)
     (simp_all add: serializeTree_long_dir alloc_ok_demo_os MAXMSGLEN_def)

text \<open>
  C6 (the serializer emits the preorder byte sequence of every finite tree).
  \<open>serializeTree\<close> copies the header of a node that has children into a block of
  \<open>MAXMSGLEN = 200\<close> bytes before any test of its size; the test and the larger block
  come only in the loop over the children. For a directory whose name has 255 bytes and
  that holds one file, the header has 263 bytes: the copy writes 63 bytes past the end
  of the block, over what the allocator keeps behind it. From there the behaviour of
  the program is undefined and no serialization is returned, in the environment of the
  examples and in every other (with an allocator that fails the process exits
  instead). \<open>serialize_ok\<close> above is the claim for the trees in which every node with
  children has a name of at most 192 bytes.
\<close>

theorem serializeTree_header_overflow:
  "serializeTree demo_os long_dir w = Inl Fault \<and>
   (serializeTree os long_dir w' = Inl Fault \<or> serializeTree os long_dir w' = Inl (Exit 1))"
proof
  show "serializeTree demo_os long_dir w = Inl Fault"
    by (rule serializeTree_long_dir)
  show "serializeTree os long_dir w' = Inl Fault \<or> serializeTree os long_dir w' = Inl (Exit 1)"
    unfolding long_dir_def
    by (rule serializeTree_long_name) (simp_all add: MAXMSGLEN_def length_long_name)
qed

text \<open>
  C7 (a failing \<^verbatim>\<open>getdirentries\<close> is answered with result, error code and no data, and
  the session continues). With descriptor -10 the call returns -1. \<open>serveGetdirentries\<close>
  has no branch for that result: it allocates \<open>res + 16 = 15\<close> bytes and copies the 4
  bytes of \<^verbatim>\<open>errno\<close> to offset 12 of that block, then asks \<^verbatim>\<open>memcpy\<close> for \<open>(size_t)(-1)\<close>
  bytes. The copies leave the block and nothing is sent.
\<close>

theorem serveGetdirentries_bad_descriptor:
  "serveGetdirentries demo_os (bytes32 (- 10) @ bytes64 4096 @ bytes64 0) s0 = Inl Fault"
  by (simp add: serveGetdirentries_def load64_at [of "bytes32 (- 10)" 4, simplified]
      load64_at [of "bytes32 (- 10) @ bytes64 4096" 12 0 "[]", simplified]
      malloc_or_err_def memcpy_def vla_def s0_def)

text \<open>
  C3 (the frame reader fails with a peer-closed error when the peer closes before N
  bytes arrived). \<open>receiveAll\<close> tests only \<open>rv < 0\<close>. When the peer has sent fewer than
  \<open>bufSize\<close> bytes and closed, every further \<^verbatim>\<open>recv\<close> returns 0, \<open>currlen\<close> stays below
  \<open>bufSize\<close> and the loop never ends: the function does not return.
\<close>

theorem receiveAll_peer_closed_never_returns:
  assumes "no_err evs" and "length (stream_bytes evs) < nat bufSize"
    and "length buf = nat bufSize"
  shows "receiveAll buf bufSize evs = None"
  using assms by (rule receiveAll_starved)

theorem receiveAll_peer_closed_never_returns_witness:
  "no_err [Data [1, 2]] \<and> length (stream_bytes [Data [1, 2]]) < nat 4 \<and>
   length (replicate 4 (0 :: byte)) = nat 4 \<and>
   receiveAll (replicate 4 0) 4 [Data [1, 2]] = None"
  using receiveAll_peer_closed_never_returns [of "[Data [1, 2]]" 4 "replicate 4 0"]
  by simp


text \<open>
  C1 (every complete request with an op_id in 0..8 is answered by exactly one reply
  frame whose first 4 bytes are its length minus 4, for the success and for the failure
  of the underlying call). The complete request frame for \<^verbatim>\<open>getdirentries(-10, buf, 4096, &0)\<close>
  (op_id 7, a payload of 20 bytes) is read whole and dispatched; the call fails with -1
  and \<open>serveGetdirentries\<close> runs out of its reply block before it sends anything. The
  session process ends with no reply frame on the wire.
\<close>

theorem serve_getdirentries_failure_unanswered:
  "serve demo_os
     (s0\<lparr>inbox := [Data (bytes32 7 @ bytes32 20 @ bytes32 (- 10) @ bytes64 4096 @ bytes64 0)]\<rparr>) =
   Some (Inl Fault)"
proof -
  let ?p = "bytes32 (- 10) @ bytes64 4096 @ bytes64 0"
  let ?s = "s0\<lparr>inbox := [Data (bytes32 7 @ bytes32 20 @ ?p)]\<rparr>"
  have "\<exists>evs'. serve demo_os ?s =
            Some (and_then
                    (dispatch demo_os 7 (take (nat (sint (20 :: 32 word))) (?p @ stream_bytes []))
                       (?s\<lparr>stack := stack ?s - nat (sint (20 :: 32 word)), inbox := evs'\<rparr>))
                    (\<lambda>(r, s2). Inr (r, unwind ?s s2))) \<and>
          stream_bytes evs' = drop (nat (sint (20 :: 32 word))) (?p @ stream_bytes []) \<and>
          (no_err [] \<longrightarrow> no_err evs')"
    by (rule serve_frame) (simp_all add: s0_def)
  then show ?thesis
    by (auto simp: dispatch_def serveGetdirentries_demo)
qed

text \<open>
  C9 (a peer that has closed before the header ends the session cleanly). When the first
  \<^verbatim>\<open>recv\<close> of \<open>serve\<close> returns 0, \<open>serve\<close> returns -1 and leaves the state as it was:
  nothing is sent and nothing fails. The loop of the child ends, the child closes the
  session socket and exits with status 0. The parent has handed the connection over and
  goes on with the connections that follow.
\<close>

theorem serve_peer_closed_at_header:
  "serve os (s\<lparr>inbox := []\<rparr>) = Some (Inr (- 1, s\<lparr>inbox := []\<rparr>)) \<and>
   child os (s\<lparr>inbox := []\<rparr>) = Some (Inr (s\<lparr>inbox := [], sess_open := False\<rparr>)) \<and>
   listener (Connection [] # cs) = ([] # fst (listener cs), snd (listener cs))"
  using child_finished [OF serve_peer_closed [of os s]]
  by (simp add: serve_peer_closed)

lemma le_bytes_4:
  "le_bytes 4 v =
     [of_nat (v mod 256), of_nat (v div 256 mod 256), of_nat (v div 256 div 256 mod 256),
      of_nat (v div 256 div 256 div 256 mod 256)]"
proof -
  have "(4 :: nat) = Suc (Suc (Suc (Suc 0)))" by simp
  then show ?thesis by (simp only: le_bytes.simps)
qed

lemma header_256: "bytes32 256 @ bytes32 0 = [0] @ [1, 0, 0, 0, 0, 0, 0]"
  by (simp add: bytes32_def le_bytes_4)

lemma receiveAll_nothing: "receiveAll buf 0 evs = Some (Inr (buf, evs))"
  by (simp add: receiveAll_def receiveAll_loop.simps [of 0 buf _ 0 evs])

lemma uninit_demo: "map (os_uninit demo_os w) [0..<8] = [0, 0, 0, 0, 0, 0, 0, 0]"
  by (simp add: upt_conv_Cons)

lemma serve_short_header:
  "serve os (s\<lparr>inbox := Data [b] # rest\<rparr>) =
   serve os (s\<lparr>inbox := Data (b # map (os_uninit os (world s)) [1..<8]) # rest\<rparr>)"
proof -
  have u: "[0..<8] = 0 # [1..<8]" by (simp add: upt_conv_Cons)
  have l: "length (map (os_uninit os (world s)) [1..<8]) = 7" by simp
  show ?thesis
    by (simp add: serve_def memcpy_def u l load32_def vla_def unwind_def del: upt_Suc
        split: option.splits sum.splits prod.splits)
qed

lemma load32_zeros: "load32 [0, 0, 0, 0, 0, 0, 0, 0] 0 = Inr 0" "load32 [0, 0, 0, 0, 0, 0, 0, 0] 4 = Inr 0"
  by (simp_all add: load32_def)

lemma unknown_op_whole_header:
  assumes "8 < fID" and "0 \<le> sint n" and "sint n \<le> int (stack s)"
    and "nat (sint n) \<le> length (extra @ stream_bytes rest)"
    and "inbox s = Data (bytes32 fID @ bytes32 n @ extra) # rest"
  shows "\<exists>evs'. serve os s =
            Some (Inr (- 1, s\<lparr>inbox := evs', errlog := errlog s @ [''undefined function \<newline>'']\<rparr>)) \<and>
          child os s =
            Some (Inr (s\<lparr>inbox := evs', errlog := errlog s @ [''undefined function \<newline>''],
                        sess_open := False\<rparr>))"
proof -
  from serve_frame [OF assms(5) assms(2) assms(3) assms(4), of os] obtain evs' where
    "serve os s =
       Some (and_then
               (dispatch os fID (take (nat (sint n)) (extra @ stream_bytes rest))
                  (s\<lparr>stack := stack s - nat (sint n), inbox := evs'\<rparr>))
               (\<lambda>(r, s2). Inr (r, unwind s s2)))"
    by blast
  then have r: "serve os s =
      Some (Inr (- 1, s\<lparr>inbox := evs', errlog := errlog s @ [''undefined function \<newline>'']\<rparr>))"
    by (simp add: dispatch_unknown [OF assms(1)] unwind_def)
  from child_finished [OF r] r show ?thesis by auto
qed

text \<open>
  C8 (an op_id outside 0..8 is logged, not answered, and ends the session). \<open>serve\<close>
  reads the header with a single \<^verbatim>\<open>recv\<close> and does not look at how many bytes it got:
  when the first segment holds one byte, \<open>serve\<close> acts as if the header were that byte
  followed by the 7 bytes the stack held in \<^verbatim>\<open>op\<close>, whatever the peer sends next. The
  request frame with op_id 256 and an empty payload is the 8 bytes
  \<open>00 01 00 00 00 00 00 00\<close>. Delivered with a first segment of one byte on a stack that
  held zeros, it is taken for op_id 0 (open) with no payload, and \<open>serveOpen\<close> reads its
  arguments from an array of size 0: no diagnostic is written and \<open>serve\<close> does not return
  -1. When the header arrives in one piece and the payload is delivered and fits the
  stack, the claim holds (\<open>unknown_op_whole_header\<close>).
\<close>

theorem serve_split_header_unknown_op:
  "bytes32 256 @ bytes32 0 = [0] @ [1, 0, 0, 0, 0, 0, 0] \<and>
   serve demo_os (s0\<lparr>inbox := [Data [0], Data [1, 0, 0, 0, 0, 0, 0]]\<rparr>) = Some (Inl Fault) \<and>
   serve os (s\<lparr>inbox := Data [b] # rest\<rparr>) =
     serve os (s\<lparr>inbox := Data (b # map (os_uninit os (world s)) [1..<8]) # rest\<rparr>)"
proof (intro conjI)
  show "bytes32 256 @ bytes32 0 = [0] @ [1, 0, 0, 0, 0, 0, 0]"
    by (rule header_256)
  show "serve demo_os (s0\<lparr>inbox := [Data [0], Data [1, 0, 0, 0, 0, 0, 0]]\<rparr>) = Some (Inl Fault)"
    by (simp add: serve_def uninit_demo memcpy_def load32_zeros vla_def
        receiveAll_nothing dispatch_def serveOpen_def load32_def)
  show "serve os (s\<lparr>inbox := Data [b] # rest\<rparr>) =
     serve os (s\<lparr>inbox := Data (b # map (os_uninit os (world s)) [1..<8]) # rest\<rparr>)"
    by (rule serve_short_header)
qed

text \<open>
  C10, as stated (for every value of \<open>payload_len\<close> the handler allocates a buffer of that
  size and attempts to read that many bytes), fails for the values with the top bit
  set: \<^verbatim>\<open>bufSize\<close> is an \<^verbatim>\<open>int\<close>, so \<open>0xFFFFFFFF\<close> is -1, the array \<^verbatim>\<open>buf\<close> has a negative
  size and no payload byte is read, although 4 bytes follow the header.
\<close>

theorem serve_negative_payload_len:
  "serve demo_os (s0\<lparr>inbox := [Data (bytes32 1 @ bytes32 (- 1) @ [3, 0, 0, 0])]\<rparr>) = Some (Inl Fault)"
  by (rule serve_negative_length [of _ 1 "- 1" "[3, 0, 0, 0]" "[]"]) simp_all

text \<open>
  C10, amended: no bound is tested and no request is turned down for its size. Once the
  single \<^verbatim>\<open>recv\<close> of \<open>serve\<close> has returned the whole 8-byte header: for every \<open>payload_len\<close>
  that is not negative as a 32-bit signed integer and not larger than what is left of
  the stack, \<open>serve\<close> takes an array of exactly that size on the stack and, when the peer
  delivers that many bytes, reads exactly them, however they are fragmented, and hands
  them to the handler of the operation.
\<close>

theorem serve_reads_declared_length:
  assumes "inbox s = Data (bytes32 fID @ bytes32 n @ extra) # rest"
    and "0 \<le> sint n" and "sint n \<le> int (stack s)"
    and "nat (sint n) \<le> length (extra @ stream_bytes rest)"
  shows "\<exists>evs'. serve os s =
            Some (and_then
                    (dispatch os fID (take (nat (sint n)) (extra @ stream_bytes rest))
                       (s\<lparr>stack := stack s - nat (sint n), inbox := evs'\<rparr>))
                    (\<lambda>(r, s2). Inr (r, unwind s s2))) \<and>
          stream_bytes evs' = drop (nat (sint n)) (extra @ stream_bytes rest)"
  using serve_frame [OF assms, of os] by blast

theorem serve_reads_declared_length_witness:
  "inbox (s0\<lparr>inbox := [Data (bytes32 1 @ bytes32 4 @ [3, 0]), Data [0], Data [0, 1]]\<rparr>) =
     Data (bytes32 1 @ bytes32 4 @ [3, 0]) # [Data [0], Data [0, 1]] \<and>
   0 \<le> sint (4 :: 32 word) \<and>
   sint (4 :: 32 word) \<le>
     int (stack (s0\<lparr>inbox := [Data (bytes32 1 @ bytes32 4 @ [3, 0]), Data [0], Data [0, 1]]\<rparr>)) \<and>
   nat (sint (4 :: 32 word)) \<le> length ([3, 0] @ stream_bytes [Data [0], Data [0, 1]]) \<and>
   (\<exists>evs'. serve demo_os (s0\<lparr>inbox := [Data (bytes32 1 @ bytes32 4 @ [3, 0]), Data [0], Data [0, 1]]\<rparr>) =
            Some (and_then
                    (dispatch demo_os 1 [3, 0, 0, 0] (s0\<lparr>stack := 8388604, inbox := evs'\<rparr>))
                    (\<lambda>(r, s2). Inr (r, unwind s0 s2))) \<and>
          stream_bytes evs' = [1])"
  using serve_reads_declared_length [of
      "s0\<lparr>inbox := [Data (bytes32 1 @ bytes32 4 @ [3, 0]), Data [0], Data [0, 1]]\<rparr>"
      1 4 "[3, 0]" "[Data [0], Data [0, 1]]" demo_os]
  by (simp add: s0_def unwind_def)


text \<open>
  C4 (the reply to a read carries the result, the error code and exactly \<open>result\<close> data
  bytes when the result is not negative, and the result and the error code alone when
  it is -1). For a payload that holds the descriptor and the count, with the
  allocations succeeding, and a \<^verbatim>\<open>read\<close> that returns either -1 or a count that is not
  negative together with that many bytes (at most \<open>nbyte\<close>), \<open>serveRead\<close> sends one frame:
  the length prefix, the 8 bytes of the result, the 4 bytes of the error code and then
  the bytes read, or nothing more after a failure.
\<close>

theorem serveRead_reply:
  assumes "alloc_ok os" and "load32 buf 0 = Inr fildes" and "load64 buf 4 = Inr nbyte"
    and "os_read os fildes nbyte (snd (os_malloc os (unat nbyte) (world s))) = ((res, data), w2)"
    and "length data \<le> unat nbyte"
    and "res = - 1 \<or> 0 \<le> sint res \<and> unat res = length data"
  shows "\<exists>s' e. serveRead os buf s = Inr s' \<and>
           outbox s' = outbox s @
             [if res = - 1 then bytes32 12 @ bytes64 res @ bytes32 e
              else bytes32 (ucast (res + 12)) @ bytes64 res @ bytes32 e @ data]"
  using assms by (rule serveRead_forward)

theorem serveRead_reply_witness:
  "alloc_ok demo_os \<and> load32 (bytes32 3 @ bytes64 5) 0 = Inr 3 \<and>
   load64 (bytes32 3 @ bytes64 5) 4 = Inr 5 \<and>
   os_read demo_os 3 5 (snd (os_malloc demo_os (unat (5 :: 64 word)) (world s0))) = ((5, hello), 0) \<and>
   length hello \<le> unat (5 :: 64 word) \<and>
   ((5 :: 64 word) = - 1 \<or> 0 \<le> sint (5 :: 64 word) \<and> unat (5 :: 64 word) = length hello) \<and>
   (\<exists>s' e. serveRead demo_os (bytes32 3 @ bytes64 5) s0 = Inr s' \<and>
      outbox s' = outbox s0 @ [bytes32 17 @ bytes64 5 @ bytes32 e @ hello])"
  using serveRead_reply [of demo_os "bytes32 3 @ bytes64 5" 3 5 s0 5 hello 0]
  by (simp add: alloc_ok_demo_os load64_append_skip hello_def s0_def)

lemma serveGetdirtree_serializer_fails:
  assumes n: "load32 buf 0 = Inr n" and n0: "0 \<le> sint n" and lb: "4 + unat n \<le> length buf"
    and small: "length buf < 2 ^ 31" and fits: "unat n + 1 \<le> stack s"
    and gd: "os_getdirtree os (c_string (take (unat n) (drop 4 buf) @ [0])) (world s) = (Some tr, w1)"
    and ser: "serializeTree os tr w1 = Inl e"
  shows "serveGetdirtree os buf s = Inl e"
  by (simp add: serveGetdirtree_def n path_block [OF n0 lb small fits] gd ser)

text \<open>
  C5 (the two replies of getdirtree). For a request that holds its path, with the arrays
  fitting the stack, the reply is the one the claim describes when \<^verbatim>\<open>getdirtree\<close> returns
  \<^verbatim>\<open>NULL\<close> and when it returns a tree that \<open>serializeTree\<close> serializes
  (\<open>serveGetdirtree_forward\<close>). The defect of C6 breaks the claim for the other trees: for
  the directory \<^verbatim>\<open>/l\<close>, which holds a directory with a name of 255 bytes and one file in
  it, \<^verbatim>\<open>getdirtree\<close> returns the tree, \<open>serveGetdirtree\<close> calls \<open>serializeTree\<close>, the
  copy of the header of 263 bytes leaves the block of 200 bytes, and no reply is sent.
\<close>

theorem serveGetdirtree_long_name_unanswered:
  "serveGetdirtree demo_os (bytes32 2 @ [0x2F, 0x6C]) s0 = Inl Fault"
proof (rule serveGetdirtree_serializer_fails [where n = 2 and tr = long_tree and ?w1.0 = 0])
  show "os_getdirtree demo_os
          (c_string (take (unat (2 :: 32 word)) (drop 4 (bytes32 2 @ [0x2F, 0x6C])) @ [0]))
          (world s0) = (Some long_tree, 0)"
    by (simp add: c_string_def s0_def)
  show "serializeTree demo_os long_tree 0 = Inl Fault"
    by (rule serializeTree_long_tree)
qed (simp_all add: s0_def)





end
